theory Spec2Isabelle
  imports Complex_Main
begin

section \<open>Values, errors and the user interface\<close>

text \<open>
  The program is \<^verbatim>\<open>GlossonPharmacy.py\<close>: a \<^verbatim>\<open>DatabaseManager\<close> that sends
  statements to a relational store, an \<^verbatim>\<open>InventoryManager\<close> and a
  \<^verbatim>\<open>SalesManager\<close> on top of it. Column values and statement parameters are
  dynamically typed in the source, so they are one datatype here. A price is a float in
  the source; it is an exact rational here, so rounding is outside the model. The moment
  of a sale (\<^verbatim>\<open>datetime.now()\<close>) is a natural number handed to \<open>make_sale\<close>.
\<close>

datatype py_val = VNone | VStr string | VInt int | VNum rat | VTime nat

type_synonym row = "py_val list"

text \<open>Exceptions that leave a method of the program uncaught.\<close>

datatype py_exn = AttributeError | IndexError | TypeError

text \<open>Exceptions of the database driver (\<^verbatim>\<open>psycopg2.Error\<close> and its subclasses).\<close>

datatype db_error = ProgrammingError | DataError | OperationalError

text \<open>
  What the program shows to the operator: every \<^verbatim>\<open>st.error\<close> and
  \<^verbatim>\<open>st.success\<close> call of the source is one message, carrying the values the
  source formats into its text.
\<close>

datatype ui_msg =
    Error_connecting db_error
  | Error_executing db_error
  | No_price_found string
  | Insufficient_quantity string py_val
  | Sale_recorded py_val

section \<open>Strings\<close>

text \<open>
  Statement texts are ASCII. \<open>startswith\<close>, \<open>py_strip\<close> and \<open>py_upper\<close> are
  \<^verbatim>\<open>str.startswith\<close>, \<^verbatim>\<open>str.strip()\<close> and \<^verbatim>\<open>str.upper()\<close> on ASCII text.
\<close>

definition ascii_text :: "string \<Rightarrow> bool" where
  "ascii_text s = list_all (\<lambda>c. \<not> digit7 c) s"

definition startswith :: "string \<Rightarrow> string \<Rightarrow> bool" where
  "startswith s p = (take (length p) s = p)"

text \<open>
  The ASCII characters for which \<^verbatim>\<open>str.isspace\<close> holds: tab, line feed,
  vertical tab, form feed, carriage return, the four separators and the space.
\<close>

definition py_isspace :: "char \<Rightarrow> bool" where
  "py_isspace c =
     (c \<in> {CHR 0x09, CHR 0x0A, CHR 0x0B, CHR 0x0C, CHR 0x0D,
            CHR 0x1C, CHR 0x1D, CHR 0x1E, CHR 0x1F, CHR 0x20})"

definition py_strip :: "string \<Rightarrow> string" where
  "py_strip s = rev (dropWhile py_isspace (rev (dropWhile py_isspace s)))"

definition upper_char :: "char \<Rightarrow> char" where
  "upper_char c =
     (case map_of (zip ''abcdefghijklmnopqrstuvwxyz'' ''ABCDEFGHIJKLMNOPQRSTUVWXYZ'') c of
        None \<Rightarrow> c
      | Some u \<Rightarrow> u)"

definition py_upper :: "string \<Rightarrow> string" where
  "py_upper s = map upper_char s"

section \<open>The relational store\<close>

text \<open>
  The store is PostgreSQL behind the driver; the program only sends statement texts to
  it. The two tables are those the statements of the source name:
  \<^verbatim>\<open>inventory (item, quantity, price)\<close> and
  \<^verbatim>\<open>sales (item, quantity, price, customer, sale_date)\<close>, with no uniqueness
  constraint on \<^verbatim>\<open>inventory.item\<close>. A table is the list of its rows.
\<close>

record database =
  inventory :: "(string \<times> int \<times> rat) list"
  sales :: "(string \<times> int \<times> rat \<times> string \<times> nat) list"

text \<open>The seven statement texts of the source, character for character.\<close>

definition q_insert_inventory :: string where
  "q_insert_inventory = ''INSERT INTO inventory (item, quantity, price) VALUES (%s, %s, %s)''"

definition q_select_item :: string where
  "q_select_item = ''SELECT item FROM inventory''"

definition q_select_all :: string where
  "q_select_all = ''SELECT item, quantity, price FROM inventory''"

definition q_insert_sales :: string where
  "q_insert_sales =
     ''INSERT INTO sales (item, quantity, price, customer, sale_date) VALUES (%s,%s,%s,%s,%s)''"

definition q_update_inventory :: string where
  "q_update_inventory = ''UPDATE inventory SET quantity = quantity - %s WHERE item = %s''"

definition q_select_price :: string where
  "q_select_price = ''SELECT price FROM inventory WHERE item = %s''"

definition q_select_quantity :: string where
  "q_select_quantity = ''SELECT quantity FROM inventory WHERE item = %s''"

text \<open>
  SQL ignores white space around a statement and the case of keywords and of unquoted
  names; the placeholder \<^verbatim>\<open>%s\<close> of the driver is case sensitive. \<open>sql_fold\<close>
  upper-cases every character but the one after a percent sign.
\<close>

fun sql_fold :: "string \<Rightarrow> string" where
  "sql_fold [] = []"
| "sql_fold [c] = [upper_char c]"
| "sql_fold (c # d # cs) =
     (if c = CHR ''%'' then c # d # sql_fold cs else upper_char c # sql_fold (d # cs))"

definition sql_norm :: "string \<Rightarrow> string" where
  "sql_norm q = sql_fold (py_strip q)"

text \<open>
  The \<^verbatim>\<open>quantity\<close> columns are \<^verbatim>\<open>INTEGER\<close>, four bytes wide: a value
  outside this range cannot be stored, and the statement that would store it fails with
  the driver's \<^verbatim>\<open>DataError\<close> ("integer out of range").
\<close>

definition int4 :: "int \<Rightarrow> bool" where
  "int4 n = (- 2147483648 \<le> n \<and> n \<le> 2147483647)"

text \<open>
  \<open>pg_execute\<close> is what the store does for the statements of the source, as
  \<^verbatim>\<open>cursor.execute\<close> sees it: the new tables and the result set (\<open>None\<close> for a
  statement that yields no rows), or the driver's error. A statement that is none of the
  seven is rejected, and so are parameters that are not of the columns' types (the
  store's implicit casts are not modelled). \<^verbatim>\<open>UPDATE\<close> changes every row of
  the item, and fails as a whole, changing nothing, when one of the new quantities is out
  of range. The order in which a \<^verbatim>\<open>SELECT\<close> without \<^verbatim>\<open>ORDER BY\<close> returns
  rows is the store's choice; here it is the order of insertion, and an updated row
  keeps its place. A failed statement leaves the tables as they were; that the store then
  refuses further statements of the same transaction is not modelled.
\<close>

definition pg_execute :: "string \<Rightarrow> row option \<Rightarrow> database \<Rightarrow> db_error + database \<times> row list option" where
  "pg_execute q ps db =
     (let n = sql_norm q in
      if n = sql_norm q_insert_inventory then
        (case ps of
           Some [VStr item, VInt quantity, VNum price] \<Rightarrow>
             if int4 quantity
             then Inr (db\<lparr>inventory := inventory db @ [(item, quantity, price)]\<rparr>, None)
             else Inl DataError
         | _ \<Rightarrow> Inl DataError)
      else if n = sql_norm q_select_item then
        (case ps of
           None \<Rightarrow> Inr (db, Some (map (\<lambda>(i, qty, p). [VStr i]) (inventory db)))
         | _ \<Rightarrow> Inl ProgrammingError)
      else if n = sql_norm q_select_all then
        (case ps of
           None \<Rightarrow> Inr (db, Some (map (\<lambda>(i, qty, p). [VStr i, VInt qty, VNum p]) (inventory db)))
         | _ \<Rightarrow> Inl ProgrammingError)
      else if n = sql_norm q_select_price then
        (case ps of
           Some [VStr item] \<Rightarrow>
             Inr (db, Some (map (\<lambda>(i, qty, p). [VNum p])
                              (filter (\<lambda>(i, qty, p). i = item) (inventory db))))
         | _ \<Rightarrow> Inl DataError)
      else if n = sql_norm q_select_quantity then
        (case ps of
           Some [VStr item] \<Rightarrow>
             Inr (db, Some (map (\<lambda>(i, qty, p). [VInt qty])
                              (filter (\<lambda>(i, qty, p). i = item) (inventory db))))
         | _ \<Rightarrow> Inl DataError)
      else if n = sql_norm q_insert_sales then
        (case ps of
           Some [VStr item, VInt quantity, VNum price, VStr customer, VTime sale_date] \<Rightarrow>
             if int4 quantity
             then Inr (db\<lparr>sales := sales db @ [(item, quantity, price, customer, sale_date)]\<rparr>,
                       None)
             else Inl DataError
         | _ \<Rightarrow> Inl DataError)
      else if n = sql_norm q_update_inventory then
        (case ps of
           Some [VInt quantity, VStr item] \<Rightarrow>
             if list_all (\<lambda>(i, qty, p). int4 (qty - quantity))
                  (filter (\<lambda>(i, qty, p). i = item) (inventory db))
             then Inr (db\<lparr>inventory :=
                        map (\<lambda>(i, qty, p). if i = item then (i, qty - quantity, p) else (i, qty, p))
                          (inventory db)\<rparr>, None)
             else Inl DataError
         | _ \<Rightarrow> Inl DataError)
      else Inl ProgrammingError)"

section \<open>DatabaseManager\<close>

text \<open>
  A connection holds the tables its statements see, the store that runs them (\<open>run\<close>,
  the behaviour of \<^verbatim>\<open>cursor.execute\<close>) and the calls made on it so far. The
  state of the program is the connection of its \<^verbatim>\<open>DatabaseManager\<close>
  (\<open>None\<close> when connecting failed) and the messages shown so far.
\<close>

datatype db_call = Execute string "row option" | Commit | Fetchall

record connection =
  tables :: database
  run :: "string \<Rightarrow> row option \<Rightarrow> database \<Rightarrow> db_error + database \<times> row list option"
  calls :: "db_call list"

record app =
  conn :: "connection option"
  ui :: "ui_msg list"

text \<open>
  \<^verbatim>\<open>__init__\<close> with \<^verbatim>\<open>connect_to_db\<close>: the outcome of
  \<^verbatim>\<open>psycopg2.connect\<close> is the argument; an error is shown and leaves
  \<^verbatim>\<open>self.conn = None\<close>.
\<close>

definition connect_to_db :: "db_error + connection \<Rightarrow> app" where
  "connect_to_db outcome =
     (case outcome of
        Inr c \<Rightarrow> \<lparr>conn = Some c, ui = []\<rparr>
      | Inl e \<Rightarrow> \<lparr>conn = None, ui = [Error_connecting e]\<rparr>)"

text \<open>
  \<^verbatim>\<open>execute_query(self, query, params=None)\<close>. With no connection,
  \<^verbatim>\<open>self.conn.cursor()\<close> raises \<^verbatim>\<open>AttributeError\<close>, which the
  \<^verbatim>\<open>except Error\<close> clause does not catch. An error of the driver is caught and
  shown, and the method returns \<^verbatim>\<open>None\<close>. \<^verbatim>\<open>fetchall\<close> on a statement
  without a result set raises the driver's \<^verbatim>\<open>ProgrammingError\<close>.
\<close>

definition truthy_params :: "row option \<Rightarrow> bool" where
  "truthy_params params = (case params of None \<Rightarrow> False | Some ps \<Rightarrow> ps \<noteq> [])"

text \<open>
  \<^verbatim>\<open>if params: cursor.execute(query, params) else: cursor.execute(query)\<close>: a
  missing or empty parameter tuple is not passed on.
\<close>

definition passed_params :: "row option \<Rightarrow> row option" where
  "passed_params params = (if truthy_params params then params else None)"

definition log_call :: "db_call \<Rightarrow> connection \<Rightarrow> connection" where
  "log_call e c = c\<lparr>calls := calls c @ [e]\<rparr>"

definition execute_query :: "app \<Rightarrow> string \<Rightarrow> row option \<Rightarrow> py_exn + app \<times> row list option" where
  "execute_query s query params =
     (case conn s of
        None \<Rightarrow> Inl AttributeError
      | Some c \<Rightarrow>
          (let ps = passed_params params;
               c1 = log_call (Execute query ps) c
           in case run c query ps (tables c) of
                Inl e \<Rightarrow> Inr (s\<lparr>conn := Some c1, ui := ui s @ [Error_executing e]\<rparr>, None)
              | Inr (db, res) \<Rightarrow>
                  (let c2 = c1\<lparr>tables := db\<rparr>;
                       c3 = (if \<not> startswith query ''SELECT'' then log_call Commit c2 else c2)
                   in if startswith (py_upper (py_strip query)) ''SELECT''
                      then (case res of
                              Some rows \<Rightarrow> Inr (s\<lparr>conn := Some (log_call Fetchall c3)\<rparr>, Some rows)
                            | None \<Rightarrow>
                                Inr (s\<lparr>conn := Some (log_call Fetchall c3),
                                       ui := ui s @ [Error_executing ProgrammingError]\<rparr>, None))
                      else Inr (s\<lparr>conn := Some c3\<rparr>, None))))"

text \<open>The tables behind a state, and whether its connection is one to the store above.\<close>

definition store :: "app \<Rightarrow> database option" where
  "store s = map_option tables (conn s)"

definition on_pg :: "app \<Rightarrow> bool" where
  "on_pg s = (case conn s of None \<Rightarrow> False | Some c \<Rightarrow> run c = pg_execute)"

text \<open>Truth value of a returned \<^verbatim>\<open>None\<close> or list of rows.\<close>

definition truthy_rows :: "row list option \<Rightarrow> bool" where
  "truthy_rows r = (case r of None \<Rightarrow> False | Some rows \<Rightarrow> rows \<noteq> [])"

text \<open>\<^verbatim>\<open>t[0]\<close> on a tuple: \<^verbatim>\<open>IndexError\<close> when it is empty.\<close>

definition index0 :: "row \<Rightarrow> py_exn + py_val" where
  "index0 t = (case t of [] \<Rightarrow> Inl IndexError | v # _ \<Rightarrow> Inr v)"

text \<open>\<^verbatim>\<open>rows[0][0]\<close> on a returned list of rows.\<close>

definition index00 :: "row list \<Rightarrow> py_exn + py_val" where
  "index00 rows = (case rows of [] \<Rightarrow> Inl IndexError | t # _ \<Rightarrow> index0 t)"

section \<open>InventoryManager\<close>

definition add_item_to_inventory :: "app \<Rightarrow> string \<Rightarrow> int \<Rightarrow> rat \<Rightarrow> py_exn + app" where
  "add_item_to_inventory s item quantity price =
     (case execute_query s q_insert_inventory (Some [VStr item, VInt quantity, VNum price]) of
        Inl e \<Rightarrow> Inl e
      | Inr (s', r) \<Rightarrow> Inr s')"



text \<open>The second definition of \<^verbatim>\<open>get_items_in_inventory\<close> in the class body.\<close>

definition get_items_in_inventory :: "app \<Rightarrow> py_exn + app \<times> row list" where
  "get_items_in_inventory s =
     (case execute_query s q_select_all None of
        Inl e \<Rightarrow> Inl e
      | Inr (s', inventory_data) \<Rightarrow>
          if truthy_rows inventory_data then Inr (s', the inventory_data) else Inr (s', []))"

text \<open>
  The two calls \<open>main\<close> makes when the operator adds an item: the insert, then the
  listing; the result is what the listing returned.
\<close>

definition add_then_list :: "app \<Rightarrow> string \<Rightarrow> int \<Rightarrow> rat \<Rightarrow> py_exn + row list" where
  "add_then_list s item quantity price =
     (case add_item_to_inventory s item quantity price of
        Inl e \<Rightarrow> Inl e
      | Inr s1 \<Rightarrow>
          (case get_items_in_inventory s1 of
             Inl e \<Rightarrow> Inl e
           | Inr (s2, items_in_inventory) \<Rightarrow> Inr items_in_inventory))"






section \<open>SalesManager\<close>

definition get_item_price :: "app \<Rightarrow> string \<Rightarrow> py_exn + app \<times> py_val" where
  "get_item_price s item =
     (case execute_query s q_select_price (Some [VStr item]) of
        Inl e \<Rightarrow> Inl e
      | Inr (s', price) \<Rightarrow>
          if truthy_rows price
          then (case index00 (the price) of Inl e \<Rightarrow> Inl e | Inr v \<Rightarrow> Inr (s', v))
          else Inr (s', VNone))"

definition get_current_quantity :: "app \<Rightarrow> string \<Rightarrow> py_exn + app \<times> py_val" where
  "get_current_quantity s item =
     (case execute_query s q_select_quantity (Some [VStr item]) of
        Inl e \<Rightarrow> Inl e
      | Inr (s', quantity) \<Rightarrow>
          if truthy_rows quantity
          then (case index00 (the quantity) of Inl e \<Rightarrow> Inl e | Inr v \<Rightarrow> Inr (s', v))
          else Inr (s', VInt 0))"

text \<open>
  What the two lookups read from the store: the price and the quantity of the first row
  of the item, \<open>VNone\<close> and \<open>0\<close> when the item has no row.
\<close>

definition rows_of :: "database \<Rightarrow> string \<Rightarrow> (string \<times> int \<times> rat) list" where
  "rows_of db item = filter (\<lambda>(i, qty, p). i = item) (inventory db)"

definition price_of :: "database \<Rightarrow> string \<Rightarrow> py_val" where
  "price_of db item = (case rows_of db item of [] \<Rightarrow> VNone | (i, qty, p) # _ \<Rightarrow> VNum p)"

definition stock_of :: "database \<Rightarrow> string \<Rightarrow> py_val" where
  "stock_of db item = (case rows_of db item of [] \<Rightarrow> VInt 0 | (i, qty, p) # _ \<Rightarrow> VInt qty)"

text \<open>
  The operators \<open>make_sale\<close> applies to what the store returned:
  \<^verbatim>\<open>current_quantity < quantity\<close> and \<^verbatim>\<open>item_price * quantity\<close> with an
  integer \<^verbatim>\<open>quantity\<close>, and \<^verbatim>\<open>total_price += sale_price\<close>.
\<close>

fun py_lt_int :: "py_val \<Rightarrow> int \<Rightarrow> py_exn + bool" where
  "py_lt_int (VInt a) n = Inr (a < n)"
| "py_lt_int (VNum a) n = Inr (a < of_int n)"
| "py_lt_int v n = Inl TypeError"

fun py_mul_int :: "py_val \<Rightarrow> int \<Rightarrow> py_exn + py_val" where
  "py_mul_int (VInt a) n = Inr (VInt (a * n))"
| "py_mul_int (VNum a) n = Inr (VNum (a * of_int n))"
| "py_mul_int (VStr a) n = Inr (VStr (concat (replicate (nat n) a)))"
| "py_mul_int v n = Inl TypeError"

fun py_add :: "py_val \<Rightarrow> py_val \<Rightarrow> py_exn + py_val" where
  "py_add (VInt a) (VInt b) = Inr (VInt (a + b))"
| "py_add (VInt a) (VNum b) = Inr (VNum (of_int a + b))"
| "py_add (VNum a) (VInt b) = Inr (VNum (a + of_int b))"
| "py_add (VNum a) (VNum b) = Inr (VNum (a + b))"
| "py_add (VStr a) (VStr b) = Inr (VStr (a @ b))"
| "py_add v w = Inl TypeError"

type_synonym statement = "string \<times> row"

text \<open>
  The first loop of \<open>make_sale\<close>, over \<^verbatim>\<open>items_quantities.items()\<close> in the order
  of the dictionary. It returns \<open>None\<close> where the source returns early, and the total
  and the queued statements otherwise.
\<close>

fun make_sale_loop ::
  "app \<Rightarrow> (string \<times> int) list \<Rightarrow> string \<Rightarrow> nat \<Rightarrow> py_val \<Rightarrow> statement list
     \<Rightarrow> py_exn + app \<times> (py_val \<times> statement list) option" where
  "make_sale_loop s [] customer sale_date total_price queries =
     Inr (s, Some (total_price, queries))"
| "make_sale_loop s ((item, quantity) # rest) customer sale_date total_price queries =
     (case get_item_price s item of
        Inl e \<Rightarrow> Inl e
      | Inr (s1, item_price) \<Rightarrow>
          if item_price = VNone
          then Inr (s1\<lparr>ui := ui s1 @ [No_price_found item]\<rparr>, None)
          else
            (case get_current_quantity s1 item of
               Inl e \<Rightarrow> Inl e
             | Inr (s2, current_quantity) \<Rightarrow>
                 (case py_lt_int current_quantity quantity of
                    Inl e \<Rightarrow> Inl e
                  | Inr True \<Rightarrow>
                      Inr (s2\<lparr>ui := ui s2 @ [Insufficient_quantity item current_quantity]\<rparr>, None)
                  | Inr False \<Rightarrow>
                      (case py_mul_int item_price quantity of
                         Inl e \<Rightarrow> Inl e
                       | Inr sale_price \<Rightarrow>
                           (case py_add total_price sale_price of
                              Inl e \<Rightarrow> Inl e
                            | Inr total' \<Rightarrow>
                                make_sale_loop s2 rest customer sale_date total'
                                  (queries @
                                   [(q_insert_sales,
                                     [VStr item, VInt quantity, sale_price, VStr customer,
                                      VTime sale_date]),
                                    (q_update_inventory, [VInt quantity, VStr item])]))))))"

text \<open>
  A line passes the two checks of the loop when, looked up from state \<open>s\<close>, its
  item has a price and the quantity on hand is not below the requested one.
\<close>

definition line_passes :: "app \<Rightarrow> string \<times> int \<Rightarrow> bool" where
  "line_passes s l =
     (case get_item_price s (fst l) of
        Inl e \<Rightarrow> False
      | Inr (s1, item_price) \<Rightarrow>
          item_price \<noteq> VNone \<and>
          (case get_current_quantity s (fst l) of
             Inl e \<Rightarrow> False
           | Inr (s2, current_quantity) \<Rightarrow> py_lt_int current_quantity (snd l) = Inr False))"

text \<open>The same two checks, read off the tables directly.\<close>

definition line_ok :: "database \<Rightarrow> string \<times> int \<Rightarrow> bool" where
  "line_ok db l =
     (price_of db (fst l) \<noteq> VNone \<and> py_lt_int (stock_of db (fst l)) (snd l) = Inr False)"

definition numeric :: "py_val \<Rightarrow> bool" where
  "numeric v = (case v of VInt a \<Rightarrow> True | VNum a \<Rightarrow> True | _ \<Rightarrow> False)"

text \<open>The second loop: every queued statement goes to \<open>execute_query\<close> in turn.\<close>

fun run_queries :: "app \<Rightarrow> statement list \<Rightarrow> py_exn + app" where
  "run_queries s [] = Inr s"
| "run_queries s ((query, params) # rest) =
     (case execute_query s query (Some params) of
        Inl e \<Rightarrow> Inl e
      | Inr (s', r) \<Rightarrow> run_queries s' rest)"

definition make_sale :: "app \<Rightarrow> (string \<times> int) list \<Rightarrow> string \<Rightarrow> nat \<Rightarrow> py_exn + app" where
  "make_sale s items_quantities customer sale_date =
     (case make_sale_loop s items_quantities customer sale_date (VInt 0) [] of
        Inl e \<Rightarrow> Inl e
      | Inr (s1, None) \<Rightarrow> Inr s1
      | Inr (s1, Some (total_price, queries)) \<Rightarrow>
          (case run_queries s1 queries of
             Inl e \<Rightarrow> Inl e
           | Inr s2 \<Rightarrow> Inr (s2\<lparr>ui := ui s2 @ [Sale_recorded total_price]\<rparr>)))"

section \<open>Concrete states\<close>

text \<open>
  A program freshly connected to the store with given tables, and the ledger of the
  examples: one row for aspirin at the unit price 2.00.
\<close>

definition pg_app :: "database \<Rightarrow> app" where
  "pg_app db = connect_to_db (Inr \<lparr>tables = db, run = pg_execute, calls = []\<rparr>)"

definition aspirin_ledger :: "int \<Rightarrow> app" where
  "aspirin_ledger n = pg_app \<lparr>inventory = [(''aspirin'', n, 2)], sales = []\<rparr>"

section \<open>Concurrent sales\<close>

text \<open>
  Several browser sessions run \<open>make_sale\<close> at once, each on a connection of its
  own, against the same tables. A session is where one call of \<open>make_sale\<close> for a
  one-line request stands: before the price lookup, between the two lookups (with the
  price in hand), with statements still queued (with the total), finished, or left by an
  exception. One step of a session is one call the source makes on the store: the price
  lookup, the quantity lookup with the check and the arithmetic that follow it, or one
  queued statement through \<open>execute_query\<close>, which commits it. The store runs each
  such call on the tables as the other sessions have left them, which is what its
  default isolation level gives a statement.
\<close>

datatype stage =
    Start
  | Priced py_val
  | Queued py_val "statement list"
  | Finished
  | Raised py_exn

record session =
  app_of :: app
  stage :: stage
  line :: "string \<times> int"
  customer_of :: string
  sale_time :: nat

text \<open>A connection sees the shared tables when it runs a statement, and leaves them changed.\<close>

definition attach :: "database \<Rightarrow> app \<Rightarrow> app" where
  "attach db a = (case conn a of None \<Rightarrow> a | Some c \<Rightarrow> a\<lparr>conn := Some (c\<lparr>tables := db\<rparr>)\<rparr>)"

definition detach :: "database \<Rightarrow> app \<Rightarrow> database" where
  "detach db a = (case conn a of None \<Rightarrow> db | Some c \<Rightarrow> tables c)"

definition sess_step :: "database \<Rightarrow> session \<Rightarrow> database \<times> session" where
  "sess_step db ss =
     (case stage ss of
        Start \<Rightarrow>
          (case get_item_price (attach db (app_of ss)) (fst (line ss)) of
             Inl e \<Rightarrow> (db, ss\<lparr>stage := Raised e\<rparr>)
           | Inr (a, item_price) \<Rightarrow>
               if item_price = VNone
               then (detach db a,
                     ss\<lparr>app_of := a\<lparr>ui := ui a @ [No_price_found (fst (line ss))]\<rparr>,
                        stage := Finished\<rparr>)
               else (detach db a, ss\<lparr>app_of := a, stage := Priced item_price\<rparr>))
      | Priced item_price \<Rightarrow>
          (case get_current_quantity (attach db (app_of ss)) (fst (line ss)) of
             Inl e \<Rightarrow> (db, ss\<lparr>stage := Raised e\<rparr>)
           | Inr (a, current_quantity) \<Rightarrow>
               (case py_lt_int current_quantity (snd (line ss)) of
                  Inl e \<Rightarrow> (detach db a, ss\<lparr>app_of := a, stage := Raised e\<rparr>)
                | Inr True \<Rightarrow>
                    (detach db a,
                     ss\<lparr>app_of :=
                          a\<lparr>ui := ui a @ [Insufficient_quantity (fst (line ss)) current_quantity]\<rparr>,
                        stage := Finished\<rparr>)
                | Inr False \<Rightarrow>
                    (case py_mul_int item_price (snd (line ss)) of
                       Inl e \<Rightarrow> (detach db a, ss\<lparr>app_of := a, stage := Raised e\<rparr>)
                     | Inr sale_price \<Rightarrow>
                         (case py_add (VInt 0) sale_price of
                            Inl e \<Rightarrow> (detach db a, ss\<lparr>app_of := a, stage := Raised e\<rparr>)
                          | Inr total' \<Rightarrow>
                              (detach db a,
                               ss\<lparr>app_of := a,
                                  stage := Queued total'
                                    [(q_insert_sales,
                                      [VStr (fst (line ss)), VInt (snd (line ss)), sale_price,
                                       VStr (customer_of ss), VTime (sale_time ss)]),
                                     (q_update_inventory,
                                      [VInt (snd (line ss)), VStr (fst (line ss))])]\<rparr>)))))
      | Queued total_price queries \<Rightarrow>
          (case queries of
             [] \<Rightarrow>
               (db,
                ss\<lparr>app_of := (app_of ss)\<lparr>ui := ui (app_of ss) @ [Sale_recorded total_price]\<rparr>,
                   stage := Finished\<rparr>)
           | (query, params) # rest \<Rightarrow>
               (case execute_query (attach db (app_of ss)) query (Some params) of
                  Inl e \<Rightarrow> (db, ss\<lparr>stage := Raised e\<rparr>)
                | Inr (a, r) \<Rightarrow>
                    if rest = []
                    then (detach db a,
                          ss\<lparr>app_of := a\<lparr>ui := ui a @ [Sale_recorded total_price]\<rparr>,
                             stage := Finished\<rparr>)
                    else (detach db a, ss\<lparr>app_of := a, stage := Queued total_price rest\<rparr>)))
      | Finished \<Rightarrow> (db, ss)
      | Raised e \<Rightarrow> (db, ss))"

text \<open>
  The whole system is the shared tables and the sessions. A schedule names, step by
  step, the session that moves next; a session that is finished stays as it is.
\<close>

definition sched_step :: "nat \<Rightarrow> database \<times> session list \<Rightarrow> database \<times> session list" where
  "sched_step i g =
     (case g of
        (db, sessions) \<Rightarrow>
          if i < length sessions
          then (case sess_step db (sessions ! i) of (db', ss') \<Rightarrow> (db', sessions[i := ss']))
          else g)"

fun run_sched :: "nat list \<Rightarrow> database \<times> session list \<Rightarrow> database \<times> session list" where
  "run_sched [] g = g"
| "run_sched (i # sched) g = run_sched sched (sched_step i g)"

text \<open>
  One session that calls \<open>make_sale\<close> for one unit of the item, freshly connected,
  for every customer and moment of the list.
\<close>

definition one_unit :: "database \<Rightarrow> string \<Rightarrow> string \<times> nat \<Rightarrow> session" where
  "one_unit db item who =
     \<lparr>app_of = pg_app db, stage = Start, line = (item, 1),
      customer_of = fst who, sale_time = snd who\<rparr>"

definition open_sessions :: "database \<Rightarrow> string \<Rightarrow> (string \<times> nat) list \<Rightarrow> session list" where
  "open_sessions db item buyers = map (one_unit db item) buyers"

text \<open>Where a session that sells at the unit price \<open>p\<close> stands after \<open>k\<close> steps.\<close>

definition stage_at :: "rat \<Rightarrow> session \<Rightarrow> nat \<Rightarrow> stage" where
  "stage_at p ss k =
     (if k = 0 then Start
      else if k = 1 then Priced (VNum p)
      else if k = 2 then
        Queued (VNum p)
          [(q_insert_sales,
            [VStr (fst (line ss)), VInt 1, VNum p, VStr (customer_of ss), VTime (sale_time ss)]),
           (q_update_inventory, [VInt 1, VStr (fst (line ss))])]
      else if k = 3 then Queued (VNum p) [(q_update_inventory, [VInt 1, VStr (fst (line ss))])]
      else Finished)"

text \<open>
  What holds of a session that sells one unit of the item at the unit price \<open>p\<close>
  after \<open>k\<close> steps: it is connected, it stands where \<open>stage_at\<close> says, and it has
  shown the success message once it has taken its four steps.
\<close>

definition sess_ok :: "rat \<Rightarrow> string \<Rightarrow> session \<Rightarrow> nat \<Rightarrow> bool" where
  "sess_ok p item ss k =
     (on_pg (app_of ss) \<and> line ss = (item, 1) \<and> stage ss = stage_at p ss k \<and>
      ui (app_of ss) = (if 4 \<le> k then [Sale_recorded (VNum p)] else []))"

text \<open>
  What holds of the system of \<open>n\<close> such sessions when session \<open>i\<close> has taken
  \<open>k i\<close> steps: the quantity on hand is \<open>n\<close> less the number of sessions that have
  run their \<^verbatim>\<open>UPDATE\<close>, and there is one more sale record for every session that
  has run its \<^verbatim>\<open>INSERT\<close>.
\<close>

definition sys_ok ::
  "rat \<Rightarrow> string \<Rightarrow> (string \<times> int \<times> rat) list \<Rightarrow> (string \<times> int \<times> rat) list \<Rightarrow> nat \<Rightarrow> nat
     \<Rightarrow> database \<times> session list \<Rightarrow> (nat \<Rightarrow> nat) \<Rightarrow> bool" where
  "sys_ok p item pre post l n g k =
     (length (snd g) = n \<and>
      list_all (\<lambda>i. sess_ok p item (snd g ! i) (k i)) [0..<n] \<and>
      inventory (fst g) = pre @ (item, int n - int (card {i. i < n \<and> 4 \<le> k i}), p) # post \<and>
      length (sales (fst g)) = l + card {i. i < n \<and> 3 \<le> k i})"

section \<open>The store on the statements of the source\<close>

lemma sql_norms:
  "sql_norm q_insert_inventory = ''INSERT INTO INVENTORY (ITEM, QUANTITY, PRICE) VALUES (%s, %s, %s)''"
  "sql_norm q_select_item = ''SELECT ITEM FROM INVENTORY''"
  "sql_norm q_select_all = ''SELECT ITEM, QUANTITY, PRICE FROM INVENTORY''"
  "sql_norm q_select_price = ''SELECT PRICE FROM INVENTORY WHERE ITEM = %s''"
  "sql_norm q_select_quantity = ''SELECT QUANTITY FROM INVENTORY WHERE ITEM = %s''"
  "sql_norm q_insert_sales =
     ''INSERT INTO SALES (ITEM, QUANTITY, PRICE, CUSTOMER, SALE_DATE) VALUES (%s,%s,%s,%s,%s)''"
  "sql_norm q_update_inventory = ''UPDATE INVENTORY SET QUANTITY = QUANTITY - %s WHERE ITEM = %s''"
  by code_simp+

lemma pg_insert_inventory:
  "pg_execute q_insert_inventory (Some [VStr item, VInt quantity, VNum price]) db =
     (if int4 quantity
      then Inr (db\<lparr>inventory := inventory db @ [(item, quantity, price)]\<rparr>, None)
      else Inl DataError)"
  by (simp add: pg_execute_def sql_norms)

lemma pg_select_item:
  "pg_execute q_select_item None db = Inr (db, Some (map (\<lambda>(i, qty, p). [VStr i]) (inventory db)))"
  by (simp add: pg_execute_def sql_norms)

lemma pg_select_all:
  "pg_execute q_select_all None db =
     Inr (db, Some (map (\<lambda>(i, qty, p). [VStr i, VInt qty, VNum p]) (inventory db)))"
  by (simp add: pg_execute_def sql_norms)

lemma pg_select_price:
  "pg_execute q_select_price (Some [VStr item]) db =
     Inr (db, Some (map (\<lambda>(i, qty, p). [VNum p]) (rows_of db item)))"
  by (simp add: pg_execute_def sql_norms rows_of_def)

lemma pg_select_quantity:
  "pg_execute q_select_quantity (Some [VStr item]) db =
     Inr (db, Some (map (\<lambda>(i, qty, p). [VInt qty]) (rows_of db item)))"
  by (simp add: pg_execute_def sql_norms rows_of_def)

lemma pg_insert_sales:
  "pg_execute q_insert_sales (Some [VStr item, VInt quantity, VNum price, VStr customer, VTime t]) db =
     (if int4 quantity
      then Inr (db\<lparr>sales := sales db @ [(item, quantity, price, customer, t)]\<rparr>, None)
      else Inl DataError)"
  by (simp add: pg_execute_def sql_norms)

lemma pg_update_inventory:
  "pg_execute q_update_inventory (Some [VInt quantity, VStr item]) db =
     (if list_all (\<lambda>(i, qty, p). int4 (qty - quantity)) (rows_of db item)
      then Inr (db\<lparr>inventory :=
               map (\<lambda>(i, qty, p). if i = item then (i, qty - quantity, p) else (i, qty, p))
                 (inventory db)\<rparr>, None)
      else Inl DataError)"
  by (simp add: pg_execute_def sql_norms rows_of_def)

lemma select_flags:
  "startswith q_select_item ''SELECT''"
  "startswith q_select_all ''SELECT''"
  "startswith q_select_price ''SELECT''"
  "startswith q_select_quantity ''SELECT''"
  "startswith (py_upper (py_strip q_select_item)) ''SELECT''"
  "startswith (py_upper (py_strip q_select_all)) ''SELECT''"
  "startswith (py_upper (py_strip q_select_price)) ''SELECT''"
  "startswith (py_upper (py_strip q_select_quantity)) ''SELECT''"
  by code_simp+

lemma write_flags:
  "\<not> startswith q_insert_inventory ''SELECT''"
  "\<not> startswith q_insert_sales ''SELECT''"
  "\<not> startswith q_update_inventory ''SELECT''"
  "\<not> startswith (py_upper (py_strip q_insert_inventory)) ''SELECT''"
  "\<not> startswith (py_upper (py_strip q_insert_sales)) ''SELECT''"
  "\<not> startswith (py_upper (py_strip q_update_inventory)) ''SELECT''"
  by code_simp+

lemma execute_select_price:
  assumes "conn s = Some c" "run c = pg_execute"
  shows "execute_query s q_select_price (Some [VStr item]) =
     Inr (s\<lparr>conn := Some (c\<lparr>calls := calls c @ [Execute q_select_price (Some [VStr item]), Fetchall]\<rparr>)\<rparr>,
          Some (map (\<lambda>(i, qty, p). [VNum p]) (rows_of (tables c) item)))"
  using assms
  by (simp add: execute_query_def passed_params_def truthy_params_def pg_select_price select_flags
      Let_def log_call_def)

lemma execute_select_quantity:
  assumes "conn s = Some c" "run c = pg_execute"
  shows "execute_query s q_select_quantity (Some [VStr item]) =
     Inr (s\<lparr>conn := Some (c\<lparr>calls := calls c @ [Execute q_select_quantity (Some [VStr item]), Fetchall]\<rparr>)\<rparr>,
          Some (map (\<lambda>(i, qty, p). [VInt qty]) (rows_of (tables c) item)))"
  using assms
  by (simp add: execute_query_def passed_params_def truthy_params_def pg_select_quantity select_flags
      Let_def log_call_def)

lemma execute_select_all:
  assumes "conn s = Some c" "run c = pg_execute"
  shows "execute_query s q_select_all None =
     Inr (s\<lparr>conn := Some (c\<lparr>calls := calls c @ [Execute q_select_all None, Fetchall]\<rparr>)\<rparr>,
          Some (map (\<lambda>(i, qty, p). [VStr i, VInt qty, VNum p]) (inventory (tables c))))"
  using assms
  by (simp add: execute_query_def passed_params_def truthy_params_def pg_select_all select_flags
      Let_def log_call_def)

lemma execute_insert_inventory:
  assumes "conn s = Some c" "run c = pg_execute" "int4 quantity"
  shows "execute_query s q_insert_inventory (Some [VStr item, VInt quantity, VNum price]) =
     Inr (s\<lparr>conn := Some (c\<lparr>tables := (tables c)\<lparr>inventory := inventory (tables c) @ [(item, quantity, price)]\<rparr>,
                              calls := calls c @
                                [Execute q_insert_inventory (Some [VStr item, VInt quantity, VNum price]), Commit]\<rparr>)\<rparr>,
          None)"
  using assms
  by (simp add: execute_query_def passed_params_def truthy_params_def pg_insert_inventory write_flags
      Let_def log_call_def)

lemma execute_insert_sales:
  assumes "conn s = Some c" "run c = pg_execute" "int4 quantity"
  shows "execute_query s q_insert_sales
           (Some [VStr item, VInt quantity, VNum price, VStr customer, VTime t]) =
     Inr (s\<lparr>conn := Some (c\<lparr>tables := (tables c)\<lparr>sales := sales (tables c) @ [(item, quantity, price, customer, t)]\<rparr>,
                              calls := calls c @
                                [Execute q_insert_sales
                                   (Some [VStr item, VInt quantity, VNum price, VStr customer, VTime t]),
                                 Commit]\<rparr>)\<rparr>,
          None)"
  using assms
  by (simp add: execute_query_def passed_params_def truthy_params_def pg_insert_sales write_flags
      Let_def log_call_def)

lemma execute_update_inventory:
  assumes "conn s = Some c" "run c = pg_execute"
    and "list_all (\<lambda>(i, qty, p). int4 (qty - quantity)) (rows_of (tables c) item)"
  shows "execute_query s q_update_inventory (Some [VInt quantity, VStr item]) =
     Inr (s\<lparr>conn := Some (c\<lparr>tables := (tables c)\<lparr>inventory :=
               map (\<lambda>(i, qty, p). if i = item then (i, qty - quantity, p) else (i, qty, p))
                 (inventory (tables c))\<rparr>,
                              calls := calls c @
                                [Execute q_update_inventory (Some [VInt quantity, VStr item]), Commit]\<rparr>)\<rparr>,
          None)"
  using assms
  by (simp add: execute_query_def passed_params_def truthy_params_def pg_update_inventory write_flags
      Let_def log_call_def)

lemma get_item_price_pg:
  assumes "conn s = Some c" "run c = pg_execute"
  shows "get_item_price s item =
     Inr (s\<lparr>conn := Some (c\<lparr>calls := calls c @ [Execute q_select_price (Some [VStr item]), Fetchall]\<rparr>)\<rparr>,
          price_of (tables c) item)"
  by (simp add: get_item_price_def execute_select_price [OF assms] truthy_rows_def index00_def
      index0_def price_of_def split: list.splits)

lemma get_current_quantity_pg:
  assumes "conn s = Some c" "run c = pg_execute"
  shows "get_current_quantity s item =
     Inr (s\<lparr>conn := Some (c\<lparr>calls := calls c @ [Execute q_select_quantity (Some [VStr item]), Fetchall]\<rparr>)\<rparr>,
          stock_of (tables c) item)"
  by (simp add: get_current_quantity_def execute_select_quantity [OF assms] truthy_rows_def index00_def
      index0_def stock_of_def split: list.splits)

section \<open>The validation loop on the store\<close>

lemma on_pgE:
  assumes "on_pg s" "store s = Some db"
  obtains c where "conn s = Some c" "run c = pg_execute" "tables c = db"
  using assms by (auto simp: on_pg_def store_def split: option.splits)

lemma get_item_price_on_pg:
  assumes "on_pg s" "store s = Some db"
  shows "\<exists>s'. get_item_price s item = Inr (s', price_of db item) \<and>
              on_pg s' \<and> store s' = Some db \<and> ui s' = ui s"
proof -
  from assms obtain c where c: "conn s = Some c" "run c = pg_execute" "tables c = db"
    by (rule on_pgE)
  show ?thesis
    using c by (simp add: get_item_price_pg [OF c(1,2)] on_pg_def store_def)
qed

lemma get_current_quantity_on_pg:
  assumes "on_pg s" "store s = Some db"
  shows "\<exists>s'. get_current_quantity s item = Inr (s', stock_of db item) \<and>
              on_pg s' \<and> store s' = Some db \<and> ui s' = ui s"
proof -
  from assms obtain c where c: "conn s = Some c" "run c = pg_execute" "tables c = db"
    by (rule on_pgE)
  show ?thesis
    using c by (simp add: get_current_quantity_pg [OF c(1,2)] on_pg_def store_def)
qed

lemma price_of_cases: "price_of db item = VNone \<or> (\<exists>p. price_of db item = VNum p)"
  by (auto simp: price_of_def split: list.splits)

lemma stock_of_int: "\<exists>a. stock_of db item = VInt a"
  by (auto simp: stock_of_def split: list.splits)

lemma line_passes_on_pg:
  assumes "on_pg s" "store s = Some db"
  shows "line_passes s l = line_ok db l"
proof -
  obtain s1 where s1: "get_item_price s (fst l) = Inr (s1, price_of db (fst l))"
    using get_item_price_on_pg [OF assms] by blast
  obtain s2 where s2: "get_current_quantity s (fst l) = Inr (s2, stock_of db (fst l))"
    using get_current_quantity_on_pg [OF assms] by blast
  show ?thesis
    by (simp add: line_passes_def line_ok_def s1 s2)
qed

lemma make_sale_loop_no_price:
  assumes "on_pg s" "store s = Some db" "price_of db item = VNone"
  shows "\<exists>s'. make_sale_loop s ((item, n) # post) cust t tot qs = Inr (s', None) \<and>
              on_pg s' \<and> store s' = Some db \<and> ui s' = ui s @ [No_price_found item]"
proof -
  obtain s1 where s1: "get_item_price s item = Inr (s1, VNone)"
      "on_pg s1" "store s1 = Some db" "ui s1 = ui s"
    using get_item_price_on_pg [OF assms(1,2), of item] assms(3) by auto
  show ?thesis
    using s1 by (simp add: on_pg_def store_def)
qed

lemma make_sale_loop_insufficient:
  assumes "on_pg s" "store s = Some db" "price_of db item \<noteq> VNone"
    and "stock_of db item = VInt a" "a < n"
  shows "\<exists>s'. make_sale_loop s ((item, n) # post) cust t tot qs = Inr (s', None) \<and>
              on_pg s' \<and> store s' = Some db \<and>
              ui s' = ui s @ [Insufficient_quantity item (VInt a)]"
proof -
  obtain s1 where s1: "get_item_price s item = Inr (s1, price_of db item)"
      "on_pg s1" "store s1 = Some db" "ui s1 = ui s"
    using get_item_price_on_pg [OF assms(1,2)] by blast
  obtain s2 where s2: "get_current_quantity s1 item = Inr (s2, VInt a)"
      "on_pg s2" "store s2 = Some db" "ui s2 = ui s1"
    using get_current_quantity_on_pg [OF s1(2,3), of item] assms(4) by auto
  show ?thesis
    using s1 s2 assms(3,5) by (simp add: on_pg_def store_def)
qed

lemma make_sale_loop_step:
  assumes "on_pg s" "store s = Some db" "numeric tot" "line_ok db (item, n)"
  shows "\<exists>s1 tot1 qs1.
           make_sale_loop s ((item, n) # rest) cust t tot qs =
             make_sale_loop s1 rest cust t tot1 qs1 \<and>
           on_pg s1 \<and> store s1 = Some db \<and> ui s1 = ui s \<and> numeric tot1"
proof -
  obtain s1 where s1: "get_item_price s item = Inr (s1, price_of db item)"
      "on_pg s1" "store s1 = Some db" "ui s1 = ui s"
    using get_item_price_on_pg [OF assms(1,2)] by blast
  obtain s2 where s2: "get_current_quantity s1 item = Inr (s2, stock_of db item)"
      "on_pg s2" "store s2 = Some db" "ui s2 = ui s1"
    using get_current_quantity_on_pg [OF s1(2,3)] by blast
  from assms(4) obtain p where p: "price_of db item = VNum p"
    using price_of_cases [of db item] by (auto simp: line_ok_def)
  from assms(4) have lt: "py_lt_int (stock_of db item) n = Inr False"
    by (simp add: line_ok_def)
  from assms(3) obtain tot1 where t1: "py_add tot (VNum (p * of_int n)) = Inr tot1" "numeric tot1"
    by (cases tot) (auto simp: numeric_def)
  show ?thesis
    using s1 s2 p lt t1 by (auto simp: on_pg_def store_def)
qed

lemma make_sale_loop_prefix:
  assumes "on_pg s" "store s = Some db" "numeric tot" "list_all (line_ok db) pre"
  shows "\<exists>s1 tot1 qs1.
           make_sale_loop s (pre @ rest) cust t tot qs =
             make_sale_loop s1 rest cust t tot1 qs1 \<and>
           on_pg s1 \<and> store s1 = Some db \<and> ui s1 = ui s \<and> numeric tot1"
  using assms
proof (induction pre arbitrary: s tot qs)
  case Nil
  then show ?case by auto
next
  case (Cons l pre)
  obtain item n where l: "l = (item, n)" by (cases l)
  from Cons.prems have ok: "line_ok db (item, n)" and oks: "list_all (line_ok db) pre"
    by (simp_all add: l)
  obtain s1 tot1 qs1 where
    step: "make_sale_loop s ((item, n) # (pre @ rest)) cust t tot qs =
             make_sale_loop s1 (pre @ rest) cust t tot1 qs1"
    and inv: "on_pg s1" "store s1 = Some db" "ui s1 = ui s" "numeric tot1"
    using make_sale_loop_step [OF Cons.prems(1,2,3) ok] by blast
  from Cons.IH [OF inv(1,2,4) oks, of qs1] inv(3) step show ?case
    by (auto simp: l)
qed

lemma first_failing_line:
  assumes "\<not> list_all P xs"
  shows "\<exists>pre x post. xs = pre @ x # post \<and> list_all P pre \<and> \<not> P x"
  using assms
proof (induction xs)
  case Nil
  then show ?case by simp
next
  case (Cons a xs)
  show ?case
  proof (cases "P a")
    case False
    then have "a # xs = [] @ a # xs \<and> list_all P [] \<and> \<not> P a" by simp
    then show ?thesis by blast
  next
    case True
    with Cons obtain pre x post where "xs = pre @ x # post" "list_all P pre" "\<not> P x"
      by auto
    with True have "a # xs = (a # pre) @ x # post \<and> list_all P (a # pre) \<and> \<not> P x"
      by simp
    then show ?thesis by blast
  qed
qed

lemma make_sale_aborts:
  assumes "make_sale_loop s items customer sale_date (VInt 0) [] = Inr (s', None)"
  shows "make_sale s items customer sale_date = Inr s'"
  using assms by (simp add: make_sale_def)

lemma pg_app_simps:
  "conn (pg_app db) = Some \<lparr>tables = db, run = pg_execute, calls = []\<rparr>"
  "ui (pg_app db) = []"
  "store (pg_app db) = Some db"
  "on_pg (pg_app db)"
  by (simp_all add: pg_app_def connect_to_db_def store_def on_pg_def)

lemma filter_other_items:
  assumes "\<forall>r \<in> set xs. fst r \<noteq> item"
  shows "filter (\<lambda>(i, qty, p). i = item) xs = []"
  using assms by (induction xs) auto

lemma rows_of_unique:
  assumes "inventory db = pre @ (item, qty, p) # post"
    and "\<forall>r \<in> set (pre @ post). fst r \<noteq> item"
  shows "rows_of db item = [(item, qty, p)]"
proof -
  have "filter (\<lambda>(i, qty, p). i = item) pre = []" "filter (\<lambda>(i, qty, p). i = item) post = []"
    using assms(2) by (simp_all add: filter_other_items)
  then show ?thesis
    by (simp add: rows_of_def assms(1))
qed

lemma update_other_items:
  assumes "\<forall>r \<in> set xs. fst r \<noteq> item"
  shows "map (\<lambda>(i, qty, p). if i = item then (i, qty - n, p) else (i, qty, p)) xs = xs"
  using assms by (induction xs) auto

lemma update_unique:
  assumes "\<forall>r \<in> set (pre @ post). fst r \<noteq> item"
  shows "map (\<lambda>(i, qty, p). if i = item then (i, qty - n, p) else (i, qty, p))
           (pre @ (item, q, p) # post) = pre @ (item, q - n, p) # post"
  using assms by (simp add: update_other_items)

lemma make_sale_invalid_line:
  assumes "conn s = Some c" and "run c = pg_execute"
    and "items = pre @ l # post"
    and "list_all (line_passes s) pre" and "\<not> line_passes s l"
  shows "\<exists>s'. make_sale s items customer sale_date = Inr s' \<and> store s' = store s \<and>
           ui s' = ui s @
             [if price_of (tables c) (fst l) = VNone then No_price_found (fst l)
              else Insufficient_quantity (fst l) (stock_of (tables c) (fst l))]"
proof -
  have pg: "on_pg s" "store s = Some (tables c)"
    using assms(1,2) by (simp_all add: on_pg_def store_def)
  have same: "line_passes s = line_ok (tables c)"
    by (rule ext) (rule line_passes_on_pg [OF pg])
  have pre: "list_all (line_ok (tables c)) pre"
    using assms(4) by (simp add: same)
  have bad: "\<not> line_ok (tables c) l"
    using assms(5) by (simp add: line_passes_on_pg [OF pg])
  obtain item n where l: "l = (item, n)" by (cases l)
  obtain s1 tot1 qs1 where
    step: "make_sale_loop s (pre @ l # post) customer sale_date (VInt 0) [] =
             make_sale_loop s1 (l # post) customer sale_date tot1 qs1"
    and inv: "on_pg s1" "store s1 = Some (tables c)" "ui s1 = ui s"
    using make_sale_loop_prefix [OF pg _ pre, of "VInt 0" "l # post" customer sale_date "[]"]
    by (auto simp: numeric_def)
  show ?thesis
  proof (cases "price_of (tables c) item = VNone")
    case True
    obtain s' where "make_sale_loop s1 ((item, n) # post) customer sale_date tot1 qs1 = Inr (s', None)"
        "store s' = Some (tables c)" "ui s' = ui s1 @ [No_price_found item]"
      using make_sale_loop_no_price [OF inv(1,2) True] by blast
    then show ?thesis
      using step inv(3) pg(2) True
      by (simp add: make_sale_def assms(3) l del: make_sale_loop.simps)
  next
    case False
    obtain a where a: "stock_of (tables c) item = VInt a"
      using stock_of_int by blast
    from bad False a have short: "a < n"
      by (simp add: line_ok_def l)
    obtain s' where "make_sale_loop s1 ((item, n) # post) customer sale_date tot1 qs1 = Inr (s', None)"
        "store s' = Some (tables c)" "ui s' = ui s1 @ [Insufficient_quantity item (VInt a)]"
      using make_sale_loop_insufficient [OF inv(1,2) False a short] by blast
    then show ?thesis
      using step inv(3) pg(2) False a
      by (simp add: make_sale_def assms(3) l del: make_sale_loop.simps)
  qed
qed

lemma lookups_read_store:
  assumes "conn s = Some c" and "run c = pg_execute"
  shows "get_item_price s item = Inr (s1, v) \<Longrightarrow> v = price_of (tables c) item"
    and "get_current_quantity s item = Inr (s2, w) \<Longrightarrow> w = stock_of (tables c) item"
  by (simp_all add: get_item_price_pg [OF assms] get_current_quantity_pg [OF assms])

lemma aspirin_ledger_conn:
  "conn (aspirin_ledger n) =
     Some \<lparr>tables = \<lparr>inventory = [(''aspirin'', n, 2)], sales = []\<rparr>, run = pg_execute, calls = []\<rparr>"
  "ui (aspirin_ledger n) = []"
  "store (aspirin_ledger n) = Some \<lparr>inventory = [(''aspirin'', n, 2)], sales = []\<rparr>"
  by (simp_all add: aspirin_ledger_def pg_app_simps)

lemma aspirin_ledger_lookups:
  "price_of \<lparr>inventory = [(''aspirin'', n, 2)], sales = []\<rparr> ''aspirin'' = VNum 2"
  "stock_of \<lparr>inventory = [(''aspirin'', n, 2)], sales = []\<rparr> ''aspirin'' = VInt n"
  "price_of \<lparr>inventory = [(''aspirin'', n, 2)], sales = []\<rparr> ''unknownitem'' = VNone"
  "stock_of \<lparr>inventory = [(''aspirin'', n, 2)], sales = []\<rparr> ''unknownitem'' = VInt 0"
  by (simp_all add: price_of_def stock_of_def rows_of_def)

lemma rows_of_absent:
  assumes "\<forall>r \<in> set (inventory db). fst r \<noteq> item"
  shows "rows_of db item = []"
  using assms by (simp add: rows_of_def filter_other_items)

lemma rows_of_first:
  assumes "inventory db = pre @ (item, qty, p) # post"
    and "\<forall>r \<in> set pre. fst r \<noteq> item"
  shows "\<exists>more. rows_of db item = (item, qty, p) # more"
  using assms by (simp add: rows_of_def filter_other_items)




lemma get_items_in_inventory_pg:
  assumes "conn s = Some c" "run c = pg_execute"
  shows "get_items_in_inventory s =
     Inr (s\<lparr>conn := Some (c\<lparr>calls := calls c @ [Execute q_select_all None, Fetchall]\<rparr>)\<rparr>,
          map (\<lambda>(i, qty, p). [VStr i, VInt qty, VNum p]) (inventory (tables c)))"
  by (simp add: get_items_in_inventory_def execute_select_all [OF assms] truthy_rows_def)

section \<open>The dispatch of execute_query\<close>

lemma execute_query_error:
  assumes "conn s = Some c"
    and "run c query (passed_params params) (tables c) = Inl e"
  shows "execute_query s query params =
     Inr (s\<lparr>conn := Some (c\<lparr>calls := calls c @ [Execute query (passed_params params)]\<rparr>),
            ui := ui s @ [Error_executing e]\<rparr>, None)"
  using assms by (simp add: execute_query_def Let_def log_call_def)

lemma execute_query_rows:
  assumes "conn s = Some c"
    and "run c query (passed_params params) (tables c) = Inr (db, Some rows)"
  shows "execute_query s query params =
     Inr (s\<lparr>conn := Some (c\<lparr>tables := db,
                 calls := calls c @ [Execute query (passed_params params)] @
                   (if \<not> startswith query ''SELECT'' then [Commit] else []) @
                   (if startswith (py_upper (py_strip query)) ''SELECT'' then [Fetchall] else [])\<rparr>)\<rparr>,
          if startswith (py_upper (py_strip query)) ''SELECT'' then Some rows else None)"
  using assms by (simp add: execute_query_def Let_def log_call_def)

lemma execute_query_no_rows:
  assumes "conn s = Some c"
    and "run c query (passed_params params) (tables c) = Inr (db, None)"
    and "\<not> startswith (py_upper (py_strip query)) ''SELECT''"
  shows "execute_query s query params =
     Inr (s\<lparr>conn := Some (c\<lparr>tables := db,
                 calls := calls c @ [Execute query (passed_params params)] @
                   (if \<not> startswith query ''SELECT'' then [Commit] else [])\<rparr>)\<rparr>, None)"
  using assms by (simp add: execute_query_def Let_def log_call_def)

lemma not_space:
  "\<not> py_isspace CHR ''s''" "\<not> py_isspace CHR ''t''"
  "\<not> py_isspace CHR ''S''" "\<not> py_isspace CHR ''T''"
  by (simp_all add: py_isspace_def)

lemma rstrip_keeps_prefix:
  assumes "p \<noteq> []" and "\<not> py_isspace (last p)"
  shows "\<exists>rest'. rev (dropWhile py_isspace (rev (p @ rest))) = p @ rest'"
proof -
  have p: "dropWhile py_isspace (rev p) = rev p"
    using assms by (cases p rule: rev_cases) simp_all
  show ?thesis
  proof (cases "\<forall>x \<in> set (rev rest). py_isspace x")
    case True
    then have "dropWhile py_isspace (rev rest @ rev p) = dropWhile py_isspace (rev p)"
      by (intro dropWhile_append2) simp
    then show ?thesis by (simp add: p)
  next
    case False
    then obtain x where "x \<in> set (rev rest)" "\<not> py_isspace x" by blast
    then have "dropWhile py_isspace (rev rest @ rev p) = dropWhile py_isspace (rev rest) @ rev p"
      by (rule dropWhile_append1)
    then show ?thesis by simp
  qed
qed

lemma strip_keeps_prefix:
  assumes "p \<noteq> []" and "\<not> py_isspace (hd p)" and "\<not> py_isspace (last p)"
  shows "\<exists>rest'. py_strip (p @ rest) = p @ rest'"
proof -
  have "dropWhile py_isspace (p @ rest) = p @ rest"
    using assms(1,2) by (cases p) simp_all
  then show ?thesis
    using rstrip_keeps_prefix [OF assms(1,3)] by (simp add: py_strip_def)
qed

lemma strip_leading_space:
  assumes "list_all py_isspace ws" and "\<not> py_isspace (hd p)" and "p \<noteq> []"
  shows "py_strip (ws @ p @ rest) = py_strip (p @ rest)"
proof -
  have "dropWhile py_isspace (ws @ p @ rest) = dropWhile py_isspace (p @ rest)"
    using assms(1) by (intro dropWhile_append2) (simp add: list_all_iff)
  then show ?thesis by (simp add: py_strip_def)
qed

lemma upper_select: "py_upper ''select'' = ''SELECT''" "py_upper ''SELECT'' = ''SELECT''"
  by code_simp+

lemma startswith_upper:
  assumes "s = p @ rest" and "py_upper p = ''SELECT''"
  shows "startswith (py_upper s) ''SELECT''"
proof -
  have "py_upper s = py_upper p @ py_upper rest"
    by (simp only: assms(1) py_upper_def map_append)
  then show ?thesis
    by (simp add: assms(2) startswith_def)
qed

lemma lowercase_select:
  assumes "startswith query ''select''"
  shows "startswith (py_upper (py_strip query)) ''SELECT''" and "\<not> startswith query ''SELECT''"
proof -
  define rest where "rest = drop (length ''select'') query"
  from assms have "take (length ''select'') query = ''select''"
    unfolding startswith_def .
  then have q: "query = ''select'' @ rest"
    unfolding rest_def by (metis append_take_drop_id)
  obtain rest' where "py_strip (''select'' @ rest) = ''select'' @ rest'"
    using strip_keeps_prefix [of "''select''" rest] not_space by auto
  with q have "py_strip query = ''select'' @ rest'" by simp
  then show "startswith (py_upper (py_strip query)) ''SELECT''"
    using upper_select(1) by (rule startswith_upper)
  from q show "\<not> startswith query ''SELECT''"
    by (cases query) (auto simp: startswith_def)
qed

lemma spaced_select:
  assumes "ws \<noteq> []" and "list_all py_isspace ws" and "query = ws @ ''SELECT'' @ rest"
  shows "startswith (py_upper (py_strip query)) ''SELECT''" and "\<not> startswith query ''SELECT''"
proof -
  have "py_strip query = py_strip (''SELECT'' @ rest)"
    using strip_leading_space [OF assms(2), of "''SELECT''" rest] not_space by (simp add: assms(3))
  moreover obtain rest' where "py_strip (''SELECT'' @ rest) = ''SELECT'' @ rest'"
    using strip_keeps_prefix [of "''SELECT''" rest] not_space by auto
  ultimately have "py_strip query = ''SELECT'' @ rest'" by simp
  then show "startswith (py_upper (py_strip query)) ''SELECT''"
    using upper_select(2) by (rule startswith_upper)
  from assms(1,2) obtain w ws' where "ws = w # ws'" "py_isspace w"
    by (cases ws) auto
  with not_space(3) show "\<not> startswith query ''SELECT''"
    by (auto simp: startswith_def assms(3))
qed

lemma execute_query_no_connection:
  assumes "conn s = None"
  shows "execute_query s query params = Inl AttributeError"
  using assms by (simp add: execute_query_def)

lemma pg_insert_inventory_bad:
  "pg_execute q_insert_inventory (Some [VStr item, VStr quantity, VNum price]) db = Inl DataError"
  by (simp add: pg_execute_def sql_norms)

lemma pg_variants:
  "sql_norm ''select item from inventory'' = sql_norm q_select_item"
  "sql_norm ''   SELECT item FROM inventory'' = sql_norm q_select_item"
  by code_simp+

lemma pg_select_item_variants:
  "pg_execute ''select item from inventory'' None db =
     Inr (db, Some (map (\<lambda>(i, qty, p). [VStr i]) (inventory db)))"
  "pg_execute ''   SELECT item FROM inventory'' None db =
     Inr (db, Some (map (\<lambda>(i, qty, p). [VStr i]) (inventory db)))"
  unfolding pg_execute_def pg_variants by (simp_all add: sql_norms)

lemma ascii_statements:
  "ascii_text q_insert_inventory" "ascii_text q_select_all"
  "ascii_text ''select item from inventory''" "ascii_text ''   SELECT item FROM inventory''"
  by code_simp+

lemma passed_params_simps:
  "passed_params None = None" "passed_params (Some (v # vs)) = Some (v # vs)"
  by (simp_all add: passed_params_def truthy_params_def)

lemma int4_valid: "1 \<le> n \<Longrightarrow> n \<le> 2147483647 \<Longrightarrow> int4 n"
  by (simp add: int4_def)

lemma execute_query_ok:
  assumes "conn s = Some c"
    and "run c query (passed_params params) (tables c) = Inr (db, res)"
  shows "execute_query s query params =
     Inr (s\<lparr>conn := Some (c\<lparr>tables := db,
                 calls := calls c @ [Execute query (passed_params params)] @
                   (if \<not> startswith query ''SELECT'' then [Commit] else []) @
                   (if startswith (py_upper (py_strip query)) ''SELECT'' then [Fetchall] else [])\<rparr>),
            ui := ui s @
              (if startswith (py_upper (py_strip query)) ''SELECT'' \<and> res = None
               then [Error_executing ProgrammingError] else [])\<rparr>,
          if startswith (py_upper (py_strip query)) ''SELECT'' then res else None)"
proof (cases res)
  case None
  then show ?thesis
    using assms by (simp add: execute_query_def Let_def log_call_def)
next
  case (Some rows)
  then show ?thesis
    using execute_query_rows [OF assms(1), of query params db rows] assms(2) by simp
qed

section \<open>Steps of concurrent sessions\<close>

lemma attach_on_pg:
  assumes "on_pg a"
  shows "on_pg (attach db a)" and "store (attach db a) = Some db" and "ui (attach db a) = ui a"
  using assms by (auto simp: on_pg_def attach_def store_def split: option.splits)

lemma detach_store:
  assumes "store a = Some db'"
  shows "detach db a = db'"
  using assms by (auto simp: detach_def store_def split: option.splits)

lemma execute_insert_sales_on_pg:
  assumes "on_pg s" and "store s = Some db" and "int4 quantity"
  shows "\<exists>s'. execute_query s q_insert_sales
                 (Some [VStr item, VInt quantity, VNum price, VStr customer, VTime t]) = Inr (s', None) \<and>
              on_pg s' \<and> ui s' = ui s \<and>
              store s' = Some (db\<lparr>sales := sales db @ [(item, quantity, price, customer, t)]\<rparr>)"
proof -
  from assms(1,2) obtain c where c: "conn s = Some c" "run c = pg_execute" "tables c = db"
    by (rule on_pgE)
  show ?thesis
    using c by (simp add: execute_insert_sales [OF c(1,2) assms(3)] on_pg_def store_def)
qed

lemma execute_update_inventory_on_pg:
  assumes "on_pg s" and "store s = Some db"
    and "list_all (\<lambda>(i, qty, p). int4 (qty - quantity)) (rows_of db item)"
  shows "\<exists>s'. execute_query s q_update_inventory (Some [VInt quantity, VStr item]) = Inr (s', None) \<and>
              on_pg s' \<and> ui s' = ui s \<and>
              store s' = Some (db\<lparr>inventory :=
                 map (\<lambda>(i, qty, p). if i = item then (i, qty - quantity, p) else (i, qty, p))
                   (inventory db)\<rparr>)"
proof -
  from assms(1,2) obtain c where c: "conn s = Some c" "run c = pg_execute" "tables c = db"
    by (rule on_pgE)
  have r: "list_all (\<lambda>(i, qty, p). int4 (qty - quantity)) (rows_of (tables c) item)"
    using assms(3) c(3) by simp
  show ?thesis
    using c by (simp add: execute_update_inventory [OF c(1,2) r] on_pg_def store_def)
qed

lemma stage_at_update [simp]:
  "stage_at p (ss\<lparr>app_of := a, stage := x\<rparr>) k = stage_at p ss k"
  by (simp add: stage_at_def)

lemma step_start:
  assumes "on_pg (app_of ss)" and "stage ss = Start" and "price_of db (fst (line ss)) = VNum p"
  shows "\<exists>a. sess_step db ss = (db, ss\<lparr>app_of := a, stage := Priced (VNum p)\<rparr>) \<and>
             on_pg a \<and> ui a = ui (app_of ss)"
proof -
  note at = attach_on_pg [OF assms(1), of db]
  obtain a where a: "get_item_price (attach db (app_of ss)) (fst (line ss)) = Inr (a, VNum p)"
      "on_pg a" "store a = Some db" "ui a = ui (app_of ss)"
    using get_item_price_on_pg [OF at(1,2), of "fst (line ss)"] assms(3) at(3) by auto
  show ?thesis
    using a by (intro exI [of _ a]) (simp add: sess_step_def assms(2) detach_store)
qed

lemma step_priced:
  assumes "on_pg (app_of ss)" and "stage ss = Priced (VNum p)" and "line ss = (item, 1)"
    and "stock_of db item = VInt n" and "1 \<le> n"
  shows "\<exists>a. sess_step db ss = (db, ss\<lparr>app_of := a, stage := stage_at p ss 2\<rparr>) \<and>
             on_pg a \<and> ui a = ui (app_of ss)"
proof -
  note at = attach_on_pg [OF assms(1), of db]
  obtain a where a: "get_current_quantity (attach db (app_of ss)) item = Inr (a, VInt n)"
      "on_pg a" "store a = Some db" "ui a = ui (app_of ss)"
    using get_current_quantity_on_pg [OF at(1,2), of item] assms(4) at(3) by auto
  show ?thesis
    using a assms(5) by (intro exI [of _ a]) (simp add: sess_step_def assms(2,3) detach_store stage_at_def)
qed

lemma step_insert:
  assumes "on_pg (app_of ss)" and "stage ss = stage_at p ss 2" and "line ss = (item, 1)"
  shows "\<exists>a. sess_step db ss =
               (db\<lparr>sales := sales db @ [(item, 1, p, customer_of ss, sale_time ss)]\<rparr>,
                ss\<lparr>app_of := a, stage := stage_at p ss 3\<rparr>) \<and>
             on_pg a \<and> ui a = ui (app_of ss)"
proof -
  note at = attach_on_pg [OF assms(1), of db]
  have one: "int4 1" by (simp add: int4_def)
  obtain a where a: "execute_query (attach db (app_of ss)) q_insert_sales
        (Some [VStr item, VInt 1, VNum p, VStr (customer_of ss), VTime (sale_time ss)]) = Inr (a, None)"
      "on_pg a" "ui a = ui (app_of ss)"
      "store a = Some (db\<lparr>sales := sales db @ [(item, 1, p, customer_of ss, sale_time ss)]\<rparr>)"
    using execute_insert_sales_on_pg [OF at(1,2) one, of item p "customer_of ss" "sale_time ss"] at(3)
    by auto
  show ?thesis
    using a by (intro exI [of _ a]) (simp add: sess_step_def assms(2,3) stage_at_def detach_store)
qed

lemma step_update:
  assumes "on_pg (app_of ss)" and "stage ss = stage_at p ss 3" and "line ss = (item, 1)"
    and "inventory db = pre @ (item, n, p') # post"
    and "\<forall>r \<in> set (pre @ post). fst r \<noteq> item" and "int4 (n - 1)"
  shows "\<exists>a. sess_step db ss =
               (db\<lparr>inventory := pre @ (item, n - 1, p') # post\<rparr>,
                ss\<lparr>app_of := a, stage := Finished\<rparr>) \<and>
             on_pg a \<and> ui a = ui (app_of ss) @ [Sale_recorded (VNum p)]"
proof -
  note at = attach_on_pg [OF assms(1), of db]
  have rows: "rows_of db item = [(item, n, p')]"
    using assms(4,5) by (rule rows_of_unique)
  have fits: "list_all (\<lambda>(i, qty, p). int4 (qty - 1)) (rows_of db item)"
    using assms(6) by (simp add: rows)
  have new: "map (\<lambda>(i, qty, p). if i = item then (i, qty - 1, p) else (i, qty, p)) (inventory db) =
      pre @ (item, n - 1, p') # post"
    using update_unique [OF assms(5)] by (simp add: assms(4))
  obtain a where a: "execute_query (attach db (app_of ss)) q_update_inventory
        (Some [VInt 1, VStr item]) = Inr (a, None)"
      "on_pg a" "ui a = ui (app_of ss)"
      "store a = Some (db\<lparr>inventory := pre @ (item, n - 1, p') # post\<rparr>)"
    using execute_update_inventory_on_pg [OF at(1,2) fits] at(3) new by auto
  show ?thesis
    using a
    by (intro exI [of _ "a\<lparr>ui := ui a @ [Sale_recorded (VNum p)]\<rparr>"])
      (simp add: sess_step_def assms(2,3) stage_at_def detach_store on_pg_def)
qed

lemma step_finished:
  assumes "stage ss = Finished"
  shows "sess_step db ss = (db, ss)"
  using assms by (simp add: sess_step_def)

lemma sess_step_ok:
  assumes ok: "sess_ok p item ss k"
    and inv: "inventory db = pre @ (item, n, p) # post"
    and others: "\<forall>r \<in> set (pre @ post). fst r \<noteq> item"
    and stock: "k < 4 \<Longrightarrow> 1 \<le> n" and fits: "n \<le> 2147483647"
  shows "\<exists>db' ss'. sess_step db ss = (db', ss') \<and> sess_ok p item ss' (Suc k) \<and>
           inventory db' = pre @ (item, if k = 3 then n - 1 else n, p) # post \<and>
           length (sales db') = length (sales db) + (if k = 2 then 1 else 0)"
proof -
  from ok have pg: "on_pg (app_of ss)" and line: "line ss = (item, 1)"
    and st: "stage ss = stage_at p ss k"
    and msgs: "ui (app_of ss) = (if 4 \<le> k then [Sale_recorded (VNum p)] else [])"
    by (simp_all add: sess_ok_def)
  have rows: "rows_of db item = [(item, n, p)]"
    using inv others by (rule rows_of_unique)
  consider "k = 0" | "k = 1" | "k = 2" | "k = 3" | "4 \<le> k"
    by linarith
  then show ?thesis
  proof cases
    case 1
    have "stage ss = Start" using st 1 by (simp add: stage_at_def)
    moreover have "price_of db (fst (line ss)) = VNum p"
      by (simp add: line price_of_def rows)
    ultimately obtain a where "sess_step db ss = (db, ss\<lparr>app_of := a, stage := Priced (VNum p)\<rparr>)"
        "on_pg a" "ui a = ui (app_of ss)"
      using step_start [OF pg] by blast
    then show ?thesis
      using 1 inv line msgs by (simp add: sess_ok_def stage_at_def)
  next
    case 2
    have "stage ss = Priced (VNum p)" using st 2 by (simp add: stage_at_def)
    moreover have "stock_of db item = VInt n"
      by (simp add: stock_of_def rows)
    moreover have "1 \<le> n" using stock 2 by simp
    ultimately obtain a where "sess_step db ss = (db, ss\<lparr>app_of := a, stage := stage_at p ss 2\<rparr>)"
        "on_pg a" "ui a = ui (app_of ss)"
      using step_priced [OF pg _ line] by blast
    then show ?thesis
      using 2 inv line msgs by (simp add: sess_ok_def numeral_2_eq_2)
  next
    case 3
    have "stage ss = stage_at p ss 2" using st 3 by simp
    then obtain a where "sess_step db ss =
        (db\<lparr>sales := sales db @ [(item, 1, p, customer_of ss, sale_time ss)]\<rparr>,
         ss\<lparr>app_of := a, stage := stage_at p ss 3\<rparr>)"
        "on_pg a" "ui a = ui (app_of ss)"
      using step_insert [OF pg _ line] by blast
    then show ?thesis
      using 3 inv line msgs by (simp add: sess_ok_def)
  next
    case 4
    have "stage ss = stage_at p ss 3" using st 4 by simp
    moreover have "int4 (n - 1)"
      using stock fits 4 by (simp add: int4_def)
    ultimately obtain a where "sess_step db ss =
        (db\<lparr>inventory := pre @ (item, n - 1, p) # post\<rparr>, ss\<lparr>app_of := a, stage := Finished\<rparr>)"
        "on_pg a" "ui a = ui (app_of ss) @ [Sale_recorded (VNum p)]"
      using step_update [OF pg _ line inv others] by blast
    then show ?thesis
      using 4 line msgs by (simp add: sess_ok_def stage_at_def)
  next
    case 5
    have "stage ss = Finished" using st 5 by (simp add: stage_at_def)
    then have "sess_step db ss = (db, ss)" by (rule step_finished)
    then show ?thesis
      using 5 inv ok by (simp add: sess_ok_def stage_at_def)
  qed
qed

lemma card_bump:
  fixes n :: nat and k :: "nat \<Rightarrow> nat"
  assumes "i < n"
  shows "card {j. j < n \<and> m \<le> (k(i := Suc (k i))) j} =
         card {j. j < n \<and> m \<le> k j} + (if Suc (k i) = m then 1 else 0)"
proof (cases "Suc (k i) = m")
  case True
  have "{j. j < n \<and> m \<le> (k(i := Suc (k i))) j} = insert i {j. j < n \<and> m \<le> k j}"
    using assms True by auto
  moreover have "i \<notin> {j. j < n \<and> m \<le> k j}"
    using True by auto
  moreover have "finite {j. j < n \<and> m \<le> k j}"
    by simp
  ultimately show ?thesis
    using True by simp
next
  case False
  have "{j. j < n \<and> m \<le> (k(i := Suc (k i))) j} = {j. j < n \<and> m \<le> k j}"
    using False by auto
  then show ?thesis
    using False by simp
qed

lemma card_unfinished:
  fixes n :: nat and k :: "nat \<Rightarrow> nat"
  assumes "i < n" and "k i < m"
  shows "card {j. j < n \<and> m \<le> k j} < n"
proof -
  have "{j. j < n \<and> m \<le> k j} \<subseteq> {0..<n} - {i}"
    using assms(2) by auto
  then have "card {j. j < n \<and> m \<le> k j} \<le> card ({0..<n} - {i})"
    by (intro card_mono) simp_all
  also have "\<dots> < n"
    using assms(1) by (simp add: card_Diff_singleton_if)
  finally show ?thesis .
qed

lemma sys_step:
  assumes ok: "sys_ok p item pre post l n g k"
    and others: "\<forall>r \<in> set (pre @ post). fst r \<noteq> item"
    and fits: "int n \<le> 2147483647"
  shows "sys_ok p item pre post l n (sched_step i g) (k(i := Suc (k i)))"
proof (cases "i < n")
  case False
  have same: "{j. j < n \<and> m \<le> (k(i := Suc (k i))) j} = {j. j < n \<and> m \<le> k j}" for m
    using False by auto
  have "sched_step i g = g"
    using ok False by (cases g) (simp add: sched_step_def sys_ok_def)
  moreover have "list_all (\<lambda>j. sess_ok p item (snd g ! j) ((k(i := Suc (k i))) j)) [0..<n]"
    using ok False by (simp add: sys_ok_def list_all_iff)
  ultimately show ?thesis
    unfolding sys_ok_def same using ok [unfolded sys_ok_def] by simp
next
  case True
  obtain db ss where g: "g = (db, ss)" by (cases g)
  define gone where "gone = card {j. j < n \<and> 4 \<le> k j}"
  from ok have len: "length ss = n"
    and each: "\<And>j. j < n \<Longrightarrow> sess_ok p item (ss ! j) (k j)"
    and inv: "inventory db = pre @ (item, int n - int gone, p) # post"
    and sold: "length (sales db) = l + card {j. j < n \<and> 3 \<le> k j}"
    by (simp_all add: sys_ok_def g list_all_iff gone_def)
  have stock: "1 \<le> int n - int gone" if "k i < 4"
    using card_unfinished [of i n k 4] True that by (simp add: gone_def)
  have bound: "int n - int gone \<le> 2147483647"
    using fits by simp
  obtain db' ss' where step: "sess_step db (ss ! i) = (db', ss')"
      "sess_ok p item ss' (Suc (k i))"
      "inventory db' = pre @ (item, if k i = 3 then int n - int gone - 1 else int n - int gone, p) # post"
      "length (sales db') = length (sales db) + (if k i = 2 then 1 else 0)"
    using sess_step_ok [OF each [OF True] inv others stock bound] by blast
  have next_state: "sched_step i g = (db', ss[i := ss'])"
    using True len step(1) by (simp add: sched_step_def g)
  have each': "sess_ok p item (ss[i := ss'] ! j) ((k(i := Suc (k i))) j)" if "j < n" for j
    using that each [OF that] step(2) len by (cases "j = i") simp_all
  have gone': "card {j. j < n \<and> 4 \<le> (k(i := Suc (k i))) j} = gone + (if k i = 3 then 1 else 0)"
    using card_bump [OF True, of 4 k] by (simp add: gone_def)
  have sold': "card {j. j < n \<and> 3 \<le> (k(i := Suc (k i))) j} =
      card {j. j < n \<and> 3 \<le> k j} + (if k i = 2 then 1 else 0)"
    using card_bump [OF True, of 3 k] by (simp add: numeral_3_eq_3)
  show ?thesis
    unfolding sys_ok_def next_state
    using len each' step(3,4) sold gone' sold'
    by (simp add: list_all_iff)
qed

lemma sys_run:
  assumes "sys_ok p item pre post l n g k"
    and "\<forall>r \<in> set (pre @ post). fst r \<noteq> item"
    and "int n \<le> 2147483647"
  shows "sys_ok p item pre post l n (run_sched sched g) (\<lambda>j. k j + count_list sched j)"
  using assms(1)
proof (induction sched arbitrary: g k)
  case Nil
  then show ?case by simp
next
  case (Cons i sched)
  have "sys_ok p item pre post l n (sched_step i g) (k(i := Suc (k i)))"
    using Cons.prems assms(2,3) by (rule sys_step)
  then have "sys_ok p item pre post l n (run_sched sched (sched_step i g))
      (\<lambda>j. (k(i := Suc (k i))) j + count_list sched j)"
    by (rule Cons.IH)
  moreover have "(\<lambda>j. (k(i := Suc (k i))) j + count_list sched j) =
      (\<lambda>j. k j + count_list (i # sched) j)"
    by (rule ext) simp
  ultimately show ?case by simp
qed

lemma sys_start:
  assumes "inventory db = pre @ (item, int (length buyers), p) # post"
  shows "sys_ok p item pre post (length (sales db)) (length buyers)
           (db, open_sessions db item buyers) (\<lambda>j. 0)"
  using assms
  by (simp add: sys_ok_def open_sessions_def list_all_iff sess_ok_def one_unit_def stage_at_def
      pg_app_simps)

lemma attach_detach: "attach (detach d a) a = a"
  by (cases "conn a") (simp_all add: attach_def detach_def)

lemma detach_ui: "detach d (a\<lparr>ui := x\<rparr>) = detach d a"
  by (simp add: detach_def)

lemma execute_query_conn:
  assumes "execute_query s query params = Inr (a, r)"
  shows "\<exists>c. conn a = Some c"
  using assms
  by (auto simp: execute_query_def Let_def split: option.splits sum.splits if_splits prod.splits)

lemma get_item_price_conn:
  assumes "get_item_price s item = Inr (a, v)"
  shows "\<exists>c. conn a = Some c"
  using assms
  by (auto simp: get_item_price_def dest: execute_query_conn split: sum.splits if_splits prod.splits)

lemma get_current_quantity_conn:
  assumes "get_current_quantity s item = Inr (a, v)"
  shows "\<exists>c. conn a = Some c"
  using assms
  by (auto simp: get_current_quantity_def dest: execute_query_conn
      split: sum.splits if_splits prod.splits)

lemma detach_conn:
  assumes "conn a = Some c"
  shows "detach d a = tables c"
  using assms by (simp add: detach_def)

text \<open>
  A session that runs alone is the call of \<open>make_sale\<close>: its four steps on the tables
  of its own connection end where \<open>make_sale\<close> for the one-line request ends, with the
  same exception or with the same final state and tables, for every store behaviour.
\<close>

lemma session_alone:
  "case make_sale s [(item, quantity)] customer sale_date of
     Inl e \<Rightarrow>
       map stage (snd (run_sched [0, 0, 0, 0]
         (detach db s,
          [\<lparr>app_of = s, stage = Start, line = (item, quantity),
            customer_of = customer, sale_time = sale_date\<rparr>]))) = [Raised e]
   | Inr s' \<Rightarrow>
       map stage (snd (run_sched [0, 0, 0, 0]
         (detach db s,
          [\<lparr>app_of = s, stage = Start, line = (item, quantity),
            customer_of = customer, sale_time = sale_date\<rparr>]))) = [Finished] \<and>
       map app_of (snd (run_sched [0, 0, 0, 0]
         (detach db s,
          [\<lparr>app_of = s, stage = Start, line = (item, quantity),
            customer_of = customer, sale_time = sale_date\<rparr>]))) = [s'] \<and>
       fst (run_sched [0, 0, 0, 0]
         (detach db s,
          [\<lparr>app_of = s, stage = Start, line = (item, quantity),
            customer_of = customer, sale_time = sale_date\<rparr>])) = detach db s'"
proof (cases "get_item_price s item")
  case (Inl e)
  then show ?thesis
    by (simp add: make_sale_def sched_step_def sess_step_def attach_detach)
next
  case (Inr x)
  then obtain a1 price where p: "get_item_price s item = Inr (a1, price)"
    by (cases x) simp
  show ?thesis
  proof (cases "price = VNone")
    case True
    obtain c1 where "conn a1 = Some c1"
      using get_item_price_conn [OF p] by blast
    then show ?thesis
      using p True
      by (simp add: make_sale_def sched_step_def sess_step_def attach_detach detach_conn)
  next
    case priced: False
    show ?thesis
    proof (cases "get_current_quantity a1 item")
      case (Inl e)
      then show ?thesis
        using p priced by (simp add: make_sale_def sched_step_def sess_step_def attach_detach)
    next
      case (Inr y)
      then obtain a2 cur where q: "get_current_quantity a1 item = Inr (a2, cur)"
        by (cases y) simp
      show ?thesis
      proof (cases "py_lt_int cur quantity")
        case (Inl e)
        then show ?thesis
          using p priced q by (simp add: make_sale_def sched_step_def sess_step_def attach_detach)
      next
        case (Inr short)
        show ?thesis
        proof (cases short)
          case True
          obtain c2 where "conn a2 = Some c2"
            using get_current_quantity_conn [OF q] by blast
          then show ?thesis
            using p priced q Inr True
            by (simp add: make_sale_def sched_step_def sess_step_def attach_detach detach_conn)
        next
          case enough: False
          show ?thesis
          proof (cases "py_mul_int price quantity")
            case (Inl e)
            then show ?thesis
              using p priced q Inr enough
              by (simp add: make_sale_def sched_step_def sess_step_def attach_detach)
          next
            case mul: (Inr sale_price)
            show ?thesis
            proof (cases "py_add (VInt 0) sale_price")
              case (Inl e)
              then show ?thesis
                using p priced q Inr enough mul
                by (simp add: make_sale_def sched_step_def sess_step_def attach_detach)
            next
              case add: (Inr tot)
              let ?ins = "[VStr item, VInt quantity, sale_price, VStr customer, VTime sale_date]"
              let ?upd = "[VInt quantity, VStr item]"
              show ?thesis
              proof (cases "execute_query a2 q_insert_sales (Some ?ins)")
                case (Inl e)
                then show ?thesis
                  using p priced q Inr enough mul add
                  by (simp add: make_sale_def sched_step_def sess_step_def attach_detach)
              next
                case (Inr z)
                then obtain a3 r3 where w1: "execute_query a2 q_insert_sales (Some ?ins) = Inr (a3, r3)"
                  by (cases z) simp
                show ?thesis
                proof (cases "execute_query a3 q_update_inventory (Some ?upd)")
                  case (Inl e)
                  then show ?thesis
                    using p priced q \<open>py_lt_int cur quantity = Inr short\<close> enough mul add w1
                    by (simp add: make_sale_def sched_step_def sess_step_def attach_detach)
                next
                  case (Inr u)
                  then obtain a4 r4 where w2:
                    "execute_query a3 q_update_inventory (Some ?upd) = Inr (a4, r4)"
                    by (cases u) simp
                  obtain c4 where "conn a4 = Some c4"
                    using execute_query_conn [OF w2] by blast
                  then show ?thesis
                    using p priced q \<open>py_lt_int cur quantity = Inr short\<close> enough mul add w1 w2
                    by (simp add: make_sale_def sched_step_def sess_step_def attach_detach detach_conn)
                qed
              qed
            qed
          qed
        qed
      qed
    qed
  qed
qed

text \<open>
  The race of the source is in the model: with one unit on hand and two buyers, a
  schedule in which both sessions read the quantity before either writes lets both
  sales through and leaves the quantity at minus one.
\<close>

lemma oversold_by_race:
  "fst (run_sched [0, 0, 1, 1, 0, 0, 1, 1]
     (\<lparr>inventory = [(''aspirin'', 1, 2)], sales = []\<rparr>,
      open_sessions \<lparr>inventory = [(''aspirin'', 1, 2)], sales = []\<rparr> ''aspirin''
        [(''Ann'', 1), (''Bob'', 2)])) =
   \<lparr>inventory = [(''aspirin'', - 1, 2)],
      sales = [(''aspirin'', 1, 2, ''Ann'', 1), (''aspirin'', 1, 2, ''Bob'', 2)]\<rparr>"
  by code_simp

lemma add_item_appends:
  assumes "conn s = Some c" and "run c = pg_execute"
    and "item \<noteq> []" and "1 \<le> quantity" and "quantity \<le> 2147483647" and "0 \<le> price"
  shows "\<exists>s1 s2 listed.
           add_item_to_inventory s item quantity price = Inr s1 \<and>
           get_items_in_inventory s1 = Inr (s2, listed) \<and>
           add_then_list s item quantity price = Inr listed \<and>
           [VStr item, VInt quantity, VNum price] \<in> set listed \<and>
           (\<forall>quantity' price'. 1 \<le> quantity' \<and> quantity' \<le> 2147483647 \<and> 0 \<le> price' \<longrightarrow>
              (\<exists>s3 s4. add_item_to_inventory s2 item quantity' price' = Inr s3 \<and>
                 get_items_in_inventory s3 =
                   Inr (s4, listed @ [[VStr item, VInt quantity', VNum price']]) \<and>
                 add_then_list s2 item quantity' price' =
                   Inr (listed @ [[VStr item, VInt quantity', VNum price']])))"
proof -
  define c1 where
    "c1 = c\<lparr>tables := (tables c)\<lparr>inventory := inventory (tables c) @ [(item, quantity, price)]\<rparr>,
            calls := calls c @
              [Execute q_insert_inventory (Some [VStr item, VInt quantity, VNum price]), Commit]\<rparr>"
  define c2 where "c2 = c1\<lparr>calls := calls c1 @ [Execute q_select_all None, Fetchall]\<rparr>"
  define listed where
    "listed = map (\<lambda>(i, qty, p). [VStr i, VInt qty, VNum p]) (inventory (tables c)) @
              [[VStr item, VInt quantity, VNum price]]"
  have q: "int4 quantity"
    using assms(4,5) by (rule int4_valid)
  have pg1: "conn (s\<lparr>conn := Some c1\<rparr>) = Some c1" "run c1 = pg_execute"
    and pg2: "conn (s\<lparr>conn := Some c2\<rparr>) = Some c2" "run c2 = pg_execute"
    using assms(2) by (simp_all add: c1_def c2_def)
  have add: "add_item_to_inventory s item quantity price = Inr (s\<lparr>conn := Some c1\<rparr>)"
    by (simp add: add_item_to_inventory_def execute_insert_inventory [OF assms(1,2) q] c1_def)
  have sel: "execute_query (s\<lparr>conn := Some c1\<rparr>) q_select_all None =
      Inr (s\<lparr>conn := Some c2\<rparr>, Some listed)"
    using execute_select_all [OF pg1] by (simp add: c1_def c2_def listed_def)
  have list: "get_items_in_inventory (s\<lparr>conn := Some c1\<rparr>) = Inr (s\<lparr>conn := Some c2\<rparr>, listed)"
    by (simp add: get_items_in_inventory_def sel truthy_rows_def listed_def)
  have both: "add_then_list s item quantity price = Inr listed"
    by (simp add: add_then_list_def add list)
  have again: "\<exists>s3 s4. add_item_to_inventory (s\<lparr>conn := Some c2\<rparr>) item quantity' price' = Inr s3 \<and>
      get_items_in_inventory s3 = Inr (s4, listed @ [[VStr item, VInt quantity', VNum price']]) \<and>
      add_then_list (s\<lparr>conn := Some c2\<rparr>) item quantity' price' =
        Inr (listed @ [[VStr item, VInt quantity', VNum price']])"
    if h: "1 \<le> quantity'" "quantity' \<le> 2147483647" for quantity' price'
  proof -
    define c3 where
      "c3 = c2\<lparr>tables := (tables c2)\<lparr>inventory := inventory (tables c2) @ [(item, quantity', price')]\<rparr>,
              calls := calls c2 @
                [Execute q_insert_inventory (Some [VStr item, VInt quantity', VNum price']), Commit]\<rparr>"
    define c4 where "c4 = c3\<lparr>calls := calls c3 @ [Execute q_select_all None, Fetchall]\<rparr>"
    have q': "int4 quantity'"
      using h by (rule int4_valid)
    have pg3: "conn (s\<lparr>conn := Some c3\<rparr>) = Some c3" "run c3 = pg_execute"
      using pg2(2) by (simp_all add: c3_def)
    have add': "add_item_to_inventory (s\<lparr>conn := Some c2\<rparr>) item quantity' price' =
        Inr (s\<lparr>conn := Some c3\<rparr>)"
      by (simp add: add_item_to_inventory_def execute_insert_inventory [OF pg2 q'] c3_def)
    have sel': "execute_query (s\<lparr>conn := Some c3\<rparr>) q_select_all None =
        Inr (s\<lparr>conn := Some c4\<rparr>, Some (listed @ [[VStr item, VInt quantity', VNum price']]))"
      using execute_select_all [OF pg3] by (simp add: c1_def c2_def c3_def c4_def listed_def)
    have list': "get_items_in_inventory (s\<lparr>conn := Some c3\<rparr>) =
        Inr (s\<lparr>conn := Some c4\<rparr>, listed @ [[VStr item, VInt quantity', VNum price']])"
      by (simp add: get_items_in_inventory_def sel' truthy_rows_def)
    have "add_then_list (s\<lparr>conn := Some c2\<rparr>) item quantity' price' =
        Inr (listed @ [[VStr item, VInt quantity', VNum price']])"
      by (simp add: add_then_list_def add' list')
    with add' list' show ?thesis by blast
  qed
  have "[VStr item, VInt quantity, VNum price] \<in> set listed"
    by (simp add: listed_def)
  with add list both again show ?thesis by blast
qed

lemma concurrent_sales_in_place:
  assumes "buyers \<noteq> []" and "int (length buyers) \<le> 2147483647"
    and "inventory db = pre @ (item, int (length buyers), p) # post"
    and "\<forall>r \<in> set (pre @ post). fst r \<noteq> item"
    and "\<forall>i < length buyers. 4 \<le> count_list sched i"
  shows "\<exists>db' ss'.
           run_sched sched (db, open_sessions db item buyers) = (db', ss') \<and>
           length ss' = length buyers \<and>
           (\<forall>i < length buyers.
              stage (ss' ! i) = Finished \<and> ui (app_of (ss' ! i)) = [Sale_recorded (VNum p)]) \<and>
           inventory db' = pre @ (item, 0, p) # post \<and>
           length (sales db') = length (sales db) + length buyers \<and>
           (\<forall>sched'. \<exists>left. 0 \<le> left \<and>
              inventory (fst (run_sched sched' (db, open_sessions db item buyers))) =
                pre @ (item, left, p) # post)"
proof -
  let ?n = "length buyers"
  let ?g = "(db, open_sessions db item buyers)"
  have run: "sys_ok p item pre post (length (sales db)) ?n (run_sched s ?g)
      (\<lambda>j. 0 + count_list s j)" for s
    using sys_start [OF assms(3)] assms(4,2) by (rule sys_run)
  obtain db' ss' where g': "run_sched sched ?g = (db', ss')"
    by (cases "run_sched sched ?g")
  have all4: "{j. j < ?n \<and> 4 \<le> count_list sched j} = {..<?n}"
    and all3: "{j. j < ?n \<and> 3 \<le> count_list sched j} = {..<?n}"
    using assms(5) by force+
  from run [of sched] have len: "length ss' = ?n"
    and each: "\<And>i. i < ?n \<Longrightarrow> sess_ok p item (ss' ! i) (count_list sched i)"
    and inv: "inventory db' = pre @ (item, 0, p) # post"
    and sold: "length (sales db') = length (sales db) + ?n"
    by (simp_all add: sys_ok_def g' list_all_iff all4 all3)
  have fin: "stage (ss' ! i) = Finished \<and> ui (app_of (ss' ! i)) = [Sale_recorded (VNum p)]"
    if "i < ?n" for i
  proof -
    from assms(5) that have "4 \<le> count_list sched i"
      by blast
    moreover from this have "stage_at p (ss' ! i) (count_list sched i) = Finished"
      by (simp add: stage_at_def)
    ultimately show ?thesis
      using each [OF that] by (simp add: sess_ok_def)
  qed
  have never_negative: "\<exists>left. 0 \<le> left \<and>
      inventory (fst (run_sched s ?g)) = pre @ (item, left, p) # post" for s
  proof -
    have "card {j. j < ?n \<and> 4 \<le> count_list s j} \<le> card {..<?n}"
      by (intro card_mono) auto
    then have "0 \<le> int ?n - int (card {j. j < ?n \<and> 4 \<le> count_list s j})"
      by simp
    moreover have "inventory (fst (run_sched s ?g)) =
        pre @ (item, int ?n - int (card {j. j < ?n \<and> 4 \<le> count_list s j}), p) # post"
      using run [of s] by (simp add: sys_ok_def)
    ultimately show ?thesis by blast
  qed
  from g' len fin inv sold never_negative show ?thesis
    by blast
qed

lemma only_row:
  assumes "rows_of db item = [(item, n, p)]"
  shows "\<exists>pre post. inventory db = pre @ (item, n, p) # post \<and>
                    (\<forall>r \<in> set (pre @ post). fst r \<noteq> item)"
proof -
  from assms obtain pre post where split: "inventory db = pre @ (item, n, p) # post"
      "\<forall>u \<in> set pre. \<not> (case u of (i, qty, p) \<Rightarrow> i = item)"
      "[] = filter (\<lambda>(i, qty, p). i = item) post"
    unfolding rows_of_def filter_eq_Cons_iff by blast
  from split(3) have "\<forall>u \<in> set post. \<not> (case u of (i, qty, p) \<Rightarrow> i = item)"
    by (metis filter_empty_conv)
  with split(1,2) show ?thesis
    by (intro exI [of _ pre] exI [of _ post]) auto
qed

section \<open>The claims\<close>

text \<open>
  Claim C1. On a ledger in which aspirin has quantity 10 and unit price 2.00,
  \<^verbatim>\<open>make_sale({"aspirin": 5}, "Alice")\<close> succeeds, reports the total 10.00, leaves
  the quantity of aspirin at 5 and inserts exactly one sale record, for aspirin, quantity
  5, line total 10.00 and customer Alice. The other rows of the inventory and the earlier
  sale records are as they were.
\<close>

theorem make_sale_aspirin:
  assumes "conn s = Some c" and "run c = pg_execute"
    and "inventory (tables c) = pre @ (''aspirin'', 10, 2) # post"
    and "\<forall>r \<in> set (pre @ post). fst r \<noteq> ''aspirin''"
  shows "\<exists>s' c'. make_sale s [(''aspirin'', 5)] ''Alice'' sale_date = Inr s' \<and>
           conn s' = Some c' \<and>
           ui s' = ui s @ [Sale_recorded (VNum 10)] \<and>
           inventory (tables c') = pre @ (''aspirin'', 5, 2) # post \<and>
           sales (tables c') = sales (tables c) @ [(''aspirin'', 5, 10, ''Alice'', sale_date)]"
proof -
  have rows: "rows_of (tables c) ''aspirin'' = [(''aspirin'', 10, 2)]"
    using assms(3,4) by (rule rows_of_unique)
  define c1 where
    "c1 = c\<lparr>calls := calls c @ [Execute q_select_price (Some [VStr ''aspirin'']), Fetchall]\<rparr>"
  define c2 where
    "c2 = c1\<lparr>calls := calls c1 @ [Execute q_select_quantity (Some [VStr ''aspirin'']), Fetchall]\<rparr>"
  define ins where
    "ins = [VStr ''aspirin'', VInt 5, VNum 10, VStr ''Alice'', VTime sale_date]"
  define c3 where
    "c3 = c2\<lparr>tables := (tables c2)\<lparr>sales := sales (tables c2) @ [(''aspirin'', 5, 10, ''Alice'', sale_date)]\<rparr>,
             calls := calls c2 @ [Execute q_insert_sales (Some ins), Commit]\<rparr>"
  define c4 where
    "c4 = c3\<lparr>tables := (tables c3)\<lparr>inventory :=
               map (\<lambda>(i, qty, p). if i = ''aspirin'' then (i, qty - 5, p) else (i, qty, p))
                 (inventory (tables c3))\<rparr>,
             calls := calls c3 @ [Execute q_update_inventory (Some [VInt 5, VStr ''aspirin'']), Commit]\<rparr>"
  have price: "get_item_price s ''aspirin'' = Inr (s\<lparr>conn := Some c1\<rparr>, VNum 2)"
    using get_item_price_pg [OF assms(1,2), of "''aspirin''"]
    by (simp add: c1_def price_of_def rows)
  have stock: "get_current_quantity (s\<lparr>conn := Some c1\<rparr>) ''aspirin'' = Inr (s\<lparr>conn := Some c2\<rparr>, VInt 10)"
    using get_current_quantity_pg [of "s\<lparr>conn := Some c1\<rparr>" c1 "''aspirin''"] assms(2)
    by (simp add: c1_def c2_def stock_of_def rows)
  have loop: "make_sale_loop s [(''aspirin'', 5)] ''Alice'' sale_date (VInt 0) [] =
      Inr (s\<lparr>conn := Some c2\<rparr>,
           Some (VNum 10, [(q_insert_sales, ins), (q_update_inventory, [VInt 5, VStr ''aspirin''])]))"
    by (simp add: price stock ins_def)
  have w1: "execute_query (s\<lparr>conn := Some c2\<rparr>) q_insert_sales (Some ins) =
      Inr (s\<lparr>conn := Some c3\<rparr>, None)"
    using execute_insert_sales [of "s\<lparr>conn := Some c2\<rparr>" c2 5 "''aspirin''" 10 "''Alice''" sale_date]
      assms(2)
    by (simp add: c1_def c2_def c3_def ins_def int4_def)
  have w2: "execute_query (s\<lparr>conn := Some c3\<rparr>) q_update_inventory (Some [VInt 5, VStr ''aspirin'']) =
      Inr (s\<lparr>conn := Some c4\<rparr>, None)"
    using execute_update_inventory [of "s\<lparr>conn := Some c3\<rparr>" c3 5 "''aspirin''"] assms(2)
    by (simp add: c1_def c2_def c3_def c4_def rows [unfolded rows_of_def] rows_of_def int4_def)
  have sale: "make_sale s [(''aspirin'', 5)] ''Alice'' sale_date =
      Inr (s\<lparr>conn := Some c4, ui := ui s @ [Sale_recorded (VNum 10)]\<rparr>)"
    by (simp add: make_sale_def loop w1 w2 del: make_sale_loop.simps)
  have inv: "inventory (tables c4) = pre @ (''aspirin'', 5, 2) # post"
    using update_unique [OF assms(4), of 5 10 2]
    by (simp add: c4_def c3_def c2_def c1_def assms(3))
  have sal: "sales (tables c4) = sales (tables c) @ [(''aspirin'', 5, 10, ''Alice'', sale_date)]"
    by (simp add: c4_def c3_def c2_def c1_def)
  show ?thesis
    using sale inv sal by simp
qed

theorem make_sale_aspirin_witness:
  "\<exists>s' c'. make_sale (aspirin_ledger 10) [(''aspirin'', 5)] ''Alice'' 0 = Inr s' \<and>
     conn s' = Some c' \<and>
     ui s' = [Sale_recorded (VNum 10)] \<and>
     inventory (tables c') = [(''aspirin'', 5, 2)] \<and>
     sales (tables c') = [(''aspirin'', 5, 10, ''Alice'', 0)]"
  using make_sale_aspirin [of "aspirin_ledger 10" "\<lparr>tables = \<lparr>inventory = [(''aspirin'', 10, 2)], sales = []\<rparr>, run = pg_execute, calls = []\<rparr>" "[]" "[]" 0]
  by (simp add: aspirin_ledger_def pg_app_simps)

text \<open>
  Claim C9. For every customer, \<open>make_sale\<close> on an empty mapping makes no lookup and
  no write: the connection, with its tables and its record of calls, is untouched, and
  the only effect is the success message with the total 0.
\<close>

theorem make_sale_empty_request:
  "make_sale s [] customer sale_date = Inr (s\<lparr>ui := ui s @ [Sale_recorded (VInt 0)]\<rparr>)"
  by (simp add: make_sale_def)

text \<open>
  Claim C2, as amended. For every sale request containing a line whose requested quantity
  exceeds the quantity on hand of its item, \<open>make_sale\<close> ends with a validation error
  and writes nothing: the tables are as before, so every inventory quantity is unchanged
  and no sale record is inserted. The error is that of the first line, in the order of
  the mapping, that fails a check: when the lines before this one pass both checks and
  its item has a price, it is the insufficient-quantity error for this item, carrying the
  quantity on hand.
\<close>

theorem make_sale_insufficient_stock:
  assumes "conn s = Some c" and "run c = pg_execute"
    and "(item, quantity) \<in> set items"
    and "get_current_quantity s item = Inr (s2, VInt a)" and "a < quantity"
  shows "\<exists>s'. make_sale s items customer sale_date = Inr s' \<and> store s' = store s \<and>
           (\<exists>i v. ui s' = ui s @ [No_price_found i] \<or>
                  ui s' = ui s @ [Insufficient_quantity i v]) \<and>
           (\<forall>pre post s1 p. items = pre @ (item, quantity) # post \<and>
               list_all (line_passes s) pre \<and> get_item_price s item = Inr (s1, VNum p) \<longrightarrow>
               ui s' = ui s @ [Insufficient_quantity item (VInt a)])"
proof -
  have pg: "on_pg s" "store s = Some (tables c)"
    using assms(1,2) by (simp_all add: on_pg_def store_def)
  have stock: "stock_of (tables c) item = VInt a"
    using lookups_read_store(2) [OF assms(1,2,4)] by simp
  have bad: "\<not> line_passes s (item, quantity)"
    using stock assms(5) by (simp add: line_passes_on_pg [OF pg] line_ok_def)
  with assms(3) have "\<not> list_all (line_passes s) items"
    by (auto simp: list_all_iff)
  then obtain pre0 l post0 where split: "items = pre0 @ l # post0"
      "list_all (line_passes s) pre0" "\<not> line_passes s l"
    using first_failing_line by blast
  obtain s' where s': "make_sale s items customer sale_date = Inr s'" "store s' = store s"
      "ui s' = ui s @
         [if price_of (tables c) (fst l) = VNone then No_price_found (fst l)
          else Insufficient_quantity (fst l) (stock_of (tables c) (fst l))]"
    using make_sale_invalid_line [OF assms(1,2) split, where customer = customer and sale_date = sale_date]
    by blast
  have first: "ui s' = ui s @ [Insufficient_quantity item (VInt a)]"
    if h: "items = pre @ (item, quantity) # post" "list_all (line_passes s) pre"
      "get_item_price s item = Inr (s1, VNum p)" for pre post s1 p
  proof -
    have price: "price_of (tables c) item = VNum p"
      using lookups_read_store(1) [OF assms(1,2) h(3)] by simp
    obtain s'' where "make_sale s items customer sale_date = Inr s''"
        "ui s'' = ui s @
           [if price_of (tables c) item = VNone then No_price_found item
            else Insufficient_quantity item (stock_of (tables c) item)]"
      using make_sale_invalid_line [OF assms(1,2) h(1,2) bad, where customer = customer and sale_date = sale_date]
      by auto
    with s'(1) price stock show ?thesis by simp
  qed
  have "\<exists>i v. ui s' = ui s @ [No_price_found i] \<or> ui s' = ui s @ [Insufficient_quantity i v]"
    using s'(3) by (cases "price_of (tables c) (fst l) = VNone") auto
  with s'(1,2) first show ?thesis by blast
qed

theorem make_sale_insufficient_stock_witness:
  "\<exists>s'. make_sale (aspirin_ledger 5) [(''aspirin'', 50)] ''Bob'' 0 = Inr s' \<and>
        store s' = store (aspirin_ledger 5) \<and>
        ui s' = [Insufficient_quantity ''aspirin'' (VInt 5)]"
proof -
  let ?c = "\<lparr>tables = \<lparr>inventory = [(''aspirin'', 5, 2)], sales = []\<rparr>, run = pg_execute, calls = []\<rparr>"
  have c: "conn (aspirin_ledger 5) = Some ?c" "run ?c = pg_execute"
    by (simp_all add: aspirin_ledger_conn)
  obtain s1 where p: "get_item_price (aspirin_ledger 5) ''aspirin'' = Inr (s1, VNum 2)"
    using get_item_price_pg [OF c, of "''aspirin''"] by (simp add: aspirin_ledger_lookups)
  obtain s2 where q: "get_current_quantity (aspirin_ledger 5) ''aspirin'' = Inr (s2, VInt 5)"
    using get_current_quantity_pg [OF c, of "''aspirin''"] by (simp add: aspirin_ledger_lookups)
  have m: "(''aspirin'', 50) \<in> set [(''aspirin'', 50 :: int)]" and lt: "(5 :: int) < 50"
    by simp_all
  obtain s' where s': "make_sale (aspirin_ledger 5) [(''aspirin'', 50)] ''Bob'' 0 = Inr s'"
      "store s' = store (aspirin_ledger 5)"
      "\<forall>pre post s1 p. [(''aspirin'', 50)] = pre @ (''aspirin'', 50) # post \<and>
          list_all (line_passes (aspirin_ledger 5)) pre \<and>
          get_item_price (aspirin_ledger 5) ''aspirin'' = Inr (s1, VNum p) \<longrightarrow>
          ui s' = ui (aspirin_ledger 5) @ [Insufficient_quantity ''aspirin'' (VInt 5)]"
    using make_sale_insufficient_stock [OF c m q lt, of "''Bob''" 0] by blast
  from s'(3) p have "ui s' = ui (aspirin_ledger 5) @ [Insufficient_quantity ''aspirin'' (VInt 5)]"
    by (elim allE [of _ "[]"] allE [of _ s1] allE [of _ 2]) simp
  with s'(1,2) show ?thesis
    by (simp add: aspirin_ledger_conn)
qed

text \<open>
  The claim as stated fails on a two-line request: aspirin is short (5 on hand, 50
  requested), yet the sale ends with the no-price error of the line before it.
\<close>

theorem make_sale_insufficient_stock_counterexample:
  "(''aspirin'', 50) \<in> set [(''unknownitem'', 1), (''aspirin'', 50 :: int)] \<and>
   map_sum id snd (get_current_quantity (aspirin_ledger 5) ''aspirin'') = Inr (VInt 5) \<and>
   (5 :: int) < 50 \<and>
   map_sum id ui (make_sale (aspirin_ledger 5) [(''unknownitem'', 1), (''aspirin'', 50)] ''Bob'' 0) =
     Inr [No_price_found ''unknownitem'']"
proof -
  let ?c = "\<lparr>tables = \<lparr>inventory = [(''aspirin'', 5, 2)], sales = []\<rparr>, run = pg_execute, calls = []\<rparr>"
  have c: "conn (aspirin_ledger 5) = Some ?c" "run ?c = pg_execute"
    by (simp_all add: aspirin_ledger_conn)
  have q: "map_sum id snd (get_current_quantity (aspirin_ledger 5) ''aspirin'') = Inr (VInt 5)"
    by (simp add: get_current_quantity_pg [OF c] aspirin_ledger_lookups)
  have bad: "\<not> line_passes (aspirin_ledger 5) (''unknownitem'', 1)"
    by (simp add: line_passes_def get_item_price_pg [OF c] aspirin_ledger_lookups)
  have "\<exists>s'. make_sale (aspirin_ledger 5) [(''unknownitem'', 1), (''aspirin'', 50)] ''Bob'' 0 = Inr s' \<and>
          ui s' = [No_price_found ''unknownitem'']"
    using make_sale_invalid_line [OF c, of "[(''unknownitem'', 1), (''aspirin'', 50)]" "[]"
        "(''unknownitem'', 1)" "[(''aspirin'', 50)]" "''Bob''" 0] bad
    by (auto simp: aspirin_ledger_conn aspirin_ledger_lookups)
  then have "map_sum id ui (make_sale (aspirin_ledger 5) [(''unknownitem'', 1), (''aspirin'', 50)] ''Bob'' 0) =
      Inr [No_price_found ''unknownitem'']"
    by auto
  with q show ?thesis by simp
qed

text \<open>
  Claim C3, as amended. For every sale request containing a line whose item has no price
  in the inventory, \<open>make_sale\<close> ends with a validation error and writes nothing for
  any line: the tables are as before. The error is that of the first line, in the order
  of the mapping, that fails a check: when the lines before this one pass both checks, it
  is the no-price error naming this item.
\<close>

theorem make_sale_unknown_item:
  assumes "conn s = Some c" and "run c = pg_execute"
    and "(item, quantity) \<in> set items"
    and "get_item_price s item = Inr (s1, VNone)"
  shows "\<exists>s'. make_sale s items customer sale_date = Inr s' \<and> store s' = store s \<and>
           (\<exists>i v. ui s' = ui s @ [No_price_found i] \<or>
                  ui s' = ui s @ [Insufficient_quantity i v]) \<and>
           (\<forall>pre post. items = pre @ (item, quantity) # post \<and>
               list_all (line_passes s) pre \<longrightarrow>
               ui s' = ui s @ [No_price_found item])"
proof -
  have pg: "on_pg s" "store s = Some (tables c)"
    using assms(1,2) by (simp_all add: on_pg_def store_def)
  have price: "price_of (tables c) item = VNone"
    using lookups_read_store(1) [OF assms(1,2,4)] by simp
  have bad: "\<not> line_passes s (item, quantity)"
    using price by (simp add: line_passes_on_pg [OF pg] line_ok_def)
  with assms(3) have "\<not> list_all (line_passes s) items"
    by (auto simp: list_all_iff)
  then obtain pre0 l post0 where split: "items = pre0 @ l # post0"
      "list_all (line_passes s) pre0" "\<not> line_passes s l"
    using first_failing_line by blast
  obtain s' where s': "make_sale s items customer sale_date = Inr s'" "store s' = store s"
      "ui s' = ui s @
         [if price_of (tables c) (fst l) = VNone then No_price_found (fst l)
          else Insufficient_quantity (fst l) (stock_of (tables c) (fst l))]"
    using make_sale_invalid_line [OF assms(1,2) split, where customer = customer and sale_date = sale_date]
    by blast
  have first: "ui s' = ui s @ [No_price_found item]"
    if h: "items = pre @ (item, quantity) # post" "list_all (line_passes s) pre" for pre post
  proof -
    obtain s'' where "make_sale s items customer sale_date = Inr s''"
        "ui s'' = ui s @
           [if price_of (tables c) item = VNone then No_price_found item
            else Insufficient_quantity item (stock_of (tables c) item)]"
      using make_sale_invalid_line [OF assms(1,2) h(1,2) bad, where customer = customer and sale_date = sale_date]
      by auto
    with s'(1) price show ?thesis by simp
  qed
  have "\<exists>i v. ui s' = ui s @ [No_price_found i] \<or> ui s' = ui s @ [Insufficient_quantity i v]"
    using s'(3) by (cases "price_of (tables c) (fst l) = VNone") auto
  with s'(1,2) first show ?thesis by blast
qed

theorem make_sale_unknown_item_witness:
  "\<exists>s'. make_sale (aspirin_ledger 10) [(''unknownitem'', 1)] ''Carl'' 0 = Inr s' \<and>
        store s' = store (aspirin_ledger 10) \<and>
        ui s' = [No_price_found ''unknownitem'']"
proof -
  let ?c = "\<lparr>tables = \<lparr>inventory = [(''aspirin'', 10, 2)], sales = []\<rparr>, run = pg_execute, calls = []\<rparr>"
  have c: "conn (aspirin_ledger 10) = Some ?c" "run ?c = pg_execute"
    by (simp_all add: aspirin_ledger_conn)
  obtain s1 where p: "get_item_price (aspirin_ledger 10) ''unknownitem'' = Inr (s1, VNone)"
    using get_item_price_pg [OF c, of "''unknownitem''"] by (simp add: aspirin_ledger_lookups)
  have m: "(''unknownitem'', 1) \<in> set [(''unknownitem'', 1 :: int)]"
    by simp
  obtain s' where s': "make_sale (aspirin_ledger 10) [(''unknownitem'', 1)] ''Carl'' 0 = Inr s'"
      "store s' = store (aspirin_ledger 10)"
      "\<forall>pre post. [(''unknownitem'', 1)] = pre @ (''unknownitem'', 1) # post \<and>
          list_all (line_passes (aspirin_ledger 10)) pre \<longrightarrow>
          ui s' = ui (aspirin_ledger 10) @ [No_price_found ''unknownitem'']"
    using make_sale_unknown_item [OF c m p, of "''Carl''" 0] by blast
  from s'(3) have "ui s' = ui (aspirin_ledger 10) @ [No_price_found ''unknownitem'']"
    by (elim allE [of _ "[]"]) simp
  with s'(1,2) show ?thesis
    by (simp add: aspirin_ledger_conn)
qed

text \<open>
  The claim as stated fails on a two-line request: the second item has no price, yet the
  sale ends with the insufficient-quantity error of the line before it.
\<close>

theorem make_sale_unknown_item_counterexample:
  "(''unknownitem'', 1) \<in> set [(''aspirin'', 50), (''unknownitem'', 1 :: int)] \<and>
   map_sum id snd (get_item_price (aspirin_ledger 5) ''unknownitem'') = Inr VNone \<and>
   map_sum id ui (make_sale (aspirin_ledger 5) [(''aspirin'', 50), (''unknownitem'', 1)] ''Carl'' 0) =
     Inr [Insufficient_quantity ''aspirin'' (VInt 5)]"
proof -
  let ?c = "\<lparr>tables = \<lparr>inventory = [(''aspirin'', 5, 2)], sales = []\<rparr>, run = pg_execute, calls = []\<rparr>"
  have c: "conn (aspirin_ledger 5) = Some ?c" "run ?c = pg_execute"
    by (simp_all add: aspirin_ledger_conn)
  have p: "map_sum id snd (get_item_price (aspirin_ledger 5) ''unknownitem'') = Inr VNone"
    by (simp add: get_item_price_pg [OF c] aspirin_ledger_lookups)
  have bad: "\<not> line_passes (aspirin_ledger 5) (''aspirin'', 50)"
    by (simp add: line_passes_def get_item_price_pg [OF c] get_current_quantity_pg [OF c]
        aspirin_ledger_lookups)
  have "\<exists>s'. make_sale (aspirin_ledger 5) [(''aspirin'', 50), (''unknownitem'', 1)] ''Carl'' 0 = Inr s' \<and>
          ui s' = [Insufficient_quantity ''aspirin'' (VInt 5)]"
    using make_sale_invalid_line [OF c, of "[(''aspirin'', 50), (''unknownitem'', 1)]" "[]"
        "(''aspirin'', 50)" "[(''unknownitem'', 1)]" "''Carl''" 0] bad
    by (auto simp: aspirin_ledger_conn aspirin_ledger_lookups)
  then have "map_sum id ui (make_sale (aspirin_ledger 5) [(''aspirin'', 50), (''unknownitem'', 1)] ''Carl'' 0) =
      Inr [Insufficient_quantity ''aspirin'' (VInt 5)]"
    by auto
  with p show ?thesis by simp
qed

text \<open>
  Claim C4. On a connected store, for every item name with no row in the inventory,
  \<open>get_current_quantity\<close> returns 0 and \<open>get_item_price\<close> returns
  \<^verbatim>\<open>None\<close>; an item whose first row has the price zero gets the number 0, which
  is not \<^verbatim>\<open>None\<close>, so the unknown item and the item priced at zero are told
  apart.
\<close>

theorem lookups_of_absent_item:
  assumes "conn s = Some c" and "run c = pg_execute"
    and "\<forall>r \<in> set (inventory (tables c)). fst r \<noteq> item"
  shows "(\<exists>s'. get_current_quantity s item = Inr (s', VInt 0)) \<and>
         (\<exists>s'. get_item_price s item = Inr (s', VNone)) \<and>
         (\<forall>other qty pre post.
             inventory (tables c) = pre @ (other, qty, 0) # post \<and>
             (\<forall>r \<in> set pre. fst r \<noteq> other) \<longrightarrow>
             (\<exists>s'. get_item_price s other = Inr (s', VNum 0))) \<and>
         VNone \<noteq> VNum 0"
proof -
  have none: "rows_of (tables c) item = []"
    using assms(3) by (rule rows_of_absent)
  have q: "\<exists>s'. get_current_quantity s item = Inr (s', VInt 0)"
    by (simp add: get_current_quantity_pg [OF assms(1,2)] stock_of_def none)
  have p: "\<exists>s'. get_item_price s item = Inr (s', VNone)"
    by (simp add: get_item_price_pg [OF assms(1,2)] price_of_def none)
  have z: "\<exists>s'. get_item_price s other = Inr (s', VNum 0)"
    if h: "inventory (tables c) = pre @ (other, qty, 0) # post" "\<forall>r \<in> set pre. fst r \<noteq> other"
    for other qty pre post
  proof -
    obtain more where "rows_of (tables c) other = (other, qty, 0) # more"
      using rows_of_first [OF h] by blast
    then show ?thesis
      by (simp add: get_item_price_pg [OF assms(1,2)] price_of_def)
  qed
  from q p z show ?thesis by blast
qed

theorem lookups_of_absent_item_witness:
  "(\<exists>s'. get_current_quantity (aspirin_ledger 10) ''unknownitem'' = Inr (s', VInt 0)) \<and>
   (\<exists>s'. get_item_price (aspirin_ledger 10) ''unknownitem'' = Inr (s', VNone)) \<and>
   (\<exists>s'. get_item_price (pg_app \<lparr>inventory = [(''sample'', 3, 0)], sales = []\<rparr>) ''sample'' =
           Inr (s', VNum 0))"
proof -
  let ?c = "\<lparr>tables = \<lparr>inventory = [(''aspirin'', 10, 2)], sales = []\<rparr>, run = pg_execute, calls = []\<rparr>"
  let ?d = "\<lparr>tables = \<lparr>inventory = [(''sample'', 3, 0)], sales = []\<rparr>, run = pg_execute, calls = []\<rparr>"
  have c: "conn (aspirin_ledger 10) = Some ?c" "run ?c = pg_execute"
    and absent: "\<forall>r \<in> set (inventory (tables ?c)). fst r \<noteq> ''unknownitem''"
    by (simp_all add: aspirin_ledger_conn)
  have d: "conn (pg_app \<lparr>inventory = [(''sample'', 3, 0)], sales = []\<rparr>) = Some ?d" "run ?d = pg_execute"
    and absent': "\<forall>r \<in> set (inventory (tables ?d)). fst r \<noteq> ''unknownitem''"
    by (simp_all add: pg_app_simps)
  have zero: "inventory (tables ?d) = [] @ (''sample'', 3, 0) # [] \<and> (\<forall>r \<in> set []. fst r \<noteq> ''sample'')"
    by simp
  from lookups_of_absent_item [OF c absent] lookups_of_absent_item [OF d absent'] zero
  show ?thesis by blast
qed



text \<open>
  Claim C10. \<open>execute_query\<close> decides what to do with a statement by two different
  prefix tests. For every statement of ASCII text that the store executes, with a result
  set or, as for \<^verbatim>\<open>INSERT\<close> and \<^verbatim>\<open>UPDATE\<close>, without one, a commit is
  issued exactly when the raw text does not start with \<^verbatim>\<open>SELECT\<close>, and the result
  set is fetched and returned exactly when the text, stripped and upper-cased, starts
  with \<^verbatim>\<open>SELECT\<close> (\<^verbatim>\<open>None\<close> is returned otherwise). So for every statement
  that begins with lower-case \<^verbatim>\<open>select\<close>, or with white space before
  \<^verbatim>\<open>SELECT\<close>, the method both commits and returns the fetched rows.
\<close>

theorem execute_query_dispatch:
  assumes "conn s = Some c" and "ascii_text query"
    and "run c query (passed_params params) (tables c) = Inr (db, res)"
  shows "\<exists>s' c'.
     execute_query s query params =
       Inr (s', if startswith (py_upper (py_strip query)) ''SELECT'' then res else None) \<and>
     conn s' = Some c' \<and> tables c' = db \<and>
     calls c' = calls c @ [Execute query (passed_params params)] @
       (if \<not> startswith query ''SELECT'' then [Commit] else []) @
       (if startswith (py_upper (py_strip query)) ''SELECT'' then [Fetchall] else []) \<and>
     (startswith query ''select'' \<or>
      (\<exists>ws rest. ws \<noteq> [] \<and> list_all py_isspace ws \<and> query = ws @ ''SELECT'' @ rest) \<longrightarrow>
        execute_query s query params = Inr (s', res) \<and>
        calls c' = calls c @ [Execute query (passed_params params), Commit, Fetchall])"
proof -
  define c' where
    "c' = c\<lparr>tables := db,
            calls := calls c @ [Execute query (passed_params params)] @
              (if \<not> startswith query ''SELECT'' then [Commit] else []) @
              (if startswith (py_upper (py_strip query)) ''SELECT'' then [Fetchall] else [])\<rparr>"
  define s' where
    "s' = s\<lparr>conn := Some c',
            ui := ui s @
              (if startswith (py_upper (py_strip query)) ''SELECT'' \<and> res = None
               then [Error_executing ProgrammingError] else [])\<rparr>"
  have run: "execute_query s query params =
      Inr (s', if startswith (py_upper (py_strip query)) ''SELECT'' then res else None)"
    unfolding s'_def c'_def by (rule execute_query_ok [OF assms(1,3)])
  have both: "startswith (py_upper (py_strip query)) ''SELECT'' \<and> \<not> startswith query ''SELECT''"
    if "startswith query ''select'' \<or>
        (\<exists>ws rest. ws \<noteq> [] \<and> list_all py_isspace ws \<and> query = ws @ ''SELECT'' @ rest)"
    using that lowercase_select spaced_select by blast
  have log: "calls c' = calls c @ [Execute query (passed_params params)] @
       (if \<not> startswith query ''SELECT'' then [Commit] else []) @
       (if startswith (py_upper (py_strip query)) ''SELECT'' then [Fetchall] else [])"
    and tab: "tables c' = db"
    by (simp_all add: c'_def)
  have "conn s' = Some c'"
    by (simp add: s'_def)
  with run log tab both show ?thesis
    by (intro exI [of _ s'] exI [of _ c']) simp
qed

theorem execute_query_dispatch_witness:
  "(\<exists>s' c'. execute_query (aspirin_ledger 10) ''select item from inventory'' None =
              Inr (s', Some [[VStr ''aspirin'']]) \<and>
            conn s' = Some c' \<and>
            calls c' = [Execute ''select item from inventory'' None, Commit, Fetchall]) \<and>
   (\<exists>s' c'. execute_query (aspirin_ledger 10) ''   SELECT item FROM inventory'' None =
              Inr (s', Some [[VStr ''aspirin'']]) \<and>
            conn s' = Some c' \<and>
            calls c' = [Execute ''   SELECT item FROM inventory'' None, Commit, Fetchall]) \<and>
   (\<exists>s' c'. execute_query (aspirin_ledger 10) q_select_all None =
              Inr (s', Some [[VStr ''aspirin'', VInt 10, VNum 2]]) \<and>
            conn s' = Some c' \<and>
            calls c' = [Execute q_select_all None, Fetchall]) \<and>
   (\<exists>s' c'. execute_query (aspirin_ledger 10) q_insert_inventory
              (Some [VStr ''ibuprofen'', VInt 3, VNum 4]) = Inr (s', None) \<and>
            conn s' = Some c' \<and>
            inventory (tables c') = [(''aspirin'', 10, 2), (''ibuprofen'', 3, 4)] \<and>
            calls c' = [Execute q_insert_inventory (Some [VStr ''ibuprofen'', VInt 3, VNum 4]), Commit])"
proof -
  let ?db = "\<lparr>inventory = [(''aspirin'', 10, 2)], sales = []\<rparr>"
  let ?db' = "\<lparr>inventory = [(''aspirin'', 10, 2), (''ibuprofen'', 3, 4)], sales = []\<rparr>"
  let ?c = "\<lparr>tables = ?db, run = pg_execute, calls = []\<rparr>"
  let ?ps = "Some [VStr ''ibuprofen'', VInt 3, VNum 4]"
  have c: "conn (aspirin_ledger 10) = Some ?c"
    by (simp add: aspirin_ledger_conn)
  have r1: "run ?c ''select item from inventory'' (passed_params None) (tables ?c) =
      Inr (?db, Some [[VStr ''aspirin'']])"
    by (simp add: pg_select_item_variants passed_params_simps)
  have r2: "run ?c ''   SELECT item FROM inventory'' (passed_params None) (tables ?c) =
      Inr (?db, Some [[VStr ''aspirin'']])"
    by (simp add: pg_select_item_variants passed_params_simps)
  have r3: "run ?c q_select_all (passed_params None) (tables ?c) =
      Inr (?db, Some [[VStr ''aspirin'', VInt 10, VNum 2]])"
    by (simp add: pg_select_all passed_params_simps)
  have r4: "run ?c q_insert_inventory (passed_params ?ps) (tables ?c) = Inr (?db', None)"
    by (simp add: pg_insert_inventory passed_params_simps int4_def)
  have low: "startswith ''select item from inventory'' ''select''"
    by (simp add: startswith_def)
  have sp: "\<exists>ws rest. ws \<noteq> [] \<and> list_all py_isspace ws \<and>
      ''   SELECT item FROM inventory'' = ws @ ''SELECT'' @ rest"
    by (intro exI [of _ "''   ''"] exI [of _ "'' item FROM inventory''"])
      (simp add: py_isspace_def)
  from execute_query_dispatch [OF c ascii_statements(3) r1] low
  have a: "\<exists>s' c'. execute_query (aspirin_ledger 10) ''select item from inventory'' None =
              Inr (s', Some [[VStr ''aspirin'']]) \<and>
            conn s' = Some c' \<and>
            calls c' = [Execute ''select item from inventory'' None, Commit, Fetchall]"
    by (simp add: passed_params_simps) blast
  from execute_query_dispatch [OF c ascii_statements(4) r2] sp
  have b: "\<exists>s' c'. execute_query (aspirin_ledger 10) ''   SELECT item FROM inventory'' None =
              Inr (s', Some [[VStr ''aspirin'']]) \<and>
            conn s' = Some c' \<and>
            calls c' = [Execute ''   SELECT item FROM inventory'' None, Commit, Fetchall]"
    by (simp add: passed_params_simps) blast
  from execute_query_dispatch [OF c ascii_statements(2) r3]
  have d: "\<exists>s' c'. execute_query (aspirin_ledger 10) q_select_all None =
              Inr (s', Some [[VStr ''aspirin'', VInt 10, VNum 2]]) \<and>
            conn s' = Some c' \<and>
            calls c' = [Execute q_select_all None, Fetchall]"
    by (simp add: passed_params_simps select_flags) blast
  from execute_query_dispatch [OF c ascii_statements(1) r4]
  have e: "\<exists>s' c'. execute_query (aspirin_ledger 10) q_insert_inventory ?ps = Inr (s', None) \<and>
            conn s' = Some c' \<and>
            inventory (tables c') = [(''aspirin'', 10, 2), (''ibuprofen'', 3, 4)] \<and>
            calls c' = [Execute q_insert_inventory ?ps, Commit]"
    by (simp add: passed_params_simps write_flags) fastforce
  from a b d e show ?thesis by blast
qed

text \<open>
  Claim C6, as amended. With no connection \<open>execute_query\<close> raises
  \<^verbatim>\<open>AttributeError\<close> to its caller. An error of the driver on the statement is
  caught: it is shown to the operator as an error message, nothing is committed, the
  tables are as before, and the caller gets \<^verbatim>\<open>None\<close>. A statement that the store
  executes returns its result set when its text, stripped and upper-cased, starts with
  \<^verbatim>\<open>SELECT\<close>, and \<^verbatim>\<open>None\<close> otherwise; so the \<^verbatim>\<open>None\<close> of a failed
  statement is also what a successful \<^verbatim>\<open>INSERT\<close> or \<^verbatim>\<open>UPDATE\<close> returns,
  and only the rows of a successful \<^verbatim>\<open>SELECT\<close> differ from it.
\<close>

theorem execute_query_failure_report:
  "(conn s = None \<longrightarrow> execute_query s query params = Inl AttributeError) \<and>
   (\<forall>c e. conn s = Some c \<and> run c query (passed_params params) (tables c) = Inl e \<longrightarrow>
      (\<exists>s' c'. execute_query s query params = Inr (s', None) \<and>
            ui s' = ui s @ [Error_executing e] \<and>
            conn s' = Some c' \<and> tables c' = tables c \<and>
            calls c' = calls c @ [Execute query (passed_params params)])) \<and>
   (\<forall>c db res. conn s = Some c \<and> ascii_text query \<and>
        run c query (passed_params params) (tables c) = Inr (db, res) \<longrightarrow>
      (\<exists>s'. execute_query s query params =
              Inr (s', if startswith (py_upper (py_strip query)) ''SELECT'' then res else None) \<and>
            store s' = Some db \<and>
            ui s' = ui s @
              (if startswith (py_upper (py_strip query)) ''SELECT'' \<and> res = None
               then [Error_executing ProgrammingError] else [])))"
proof -
  have a: "execute_query s query params = Inl AttributeError" if "conn s = None"
    using that by (rule execute_query_no_connection)
  have b: "\<exists>s' c'. execute_query s query params = Inr (s', None) \<and>
            ui s' = ui s @ [Error_executing e] \<and>
            conn s' = Some c' \<and> tables c' = tables c \<and>
            calls c' = calls c @ [Execute query (passed_params params)]"
    if h: "conn s = Some c" "run c query (passed_params params) (tables c) = Inl e" for c e
    by (simp add: execute_query_error [OF h])
  have c: "\<exists>s'. execute_query s query params =
              Inr (s', if startswith (py_upper (py_strip query)) ''SELECT'' then res else None) \<and>
            store s' = Some db \<and>
            ui s' = ui s @
              (if startswith (py_upper (py_strip query)) ''SELECT'' \<and> res = None
               then [Error_executing ProgrammingError] else [])"
    if h: "conn s = Some c" "run c query (passed_params params) (tables c) = Inr (db, res)"
    for c db res
    by (simp add: execute_query_ok [OF h] store_def)
  from a b c show ?thesis by blast
qed

theorem execute_query_failure_report_witness:
  "execute_query (connect_to_db (Inl OperationalError)) q_select_all None = Inl AttributeError \<and>
   (\<exists>s' c'. execute_query (aspirin_ledger 10) q_insert_inventory
            (Some [VStr ''aspirin'', VStr ''ten'', VNum 2]) = Inr (s', None) \<and>
         ui s' = [Error_executing DataError] \<and> conn s' = Some c' \<and>
         tables c' = \<lparr>inventory = [(''aspirin'', 10, 2)], sales = []\<rparr> \<and>
         calls c' = [Execute q_insert_inventory (Some [VStr ''aspirin'', VStr ''ten'', VNum 2])]) \<and>
   (\<exists>s'. execute_query (aspirin_ledger 10) q_insert_inventory
            (Some [VStr ''aspirin'', VInt 1, VNum 2]) = Inr (s', None) \<and>
         ui s' = [] \<and>
         store s' = Some \<lparr>inventory = [(''aspirin'', 10, 2), (''aspirin'', 1, 2)], sales = []\<rparr>) \<and>
   (\<exists>s'. execute_query (aspirin_ledger 10) q_select_all None =
            Inr (s', Some [[VStr ''aspirin'', VInt 10, VNum 2]]) \<and> ui s' = [])"
proof -
  let ?db = "\<lparr>inventory = [(''aspirin'', 10, 2)], sales = []\<rparr>"
  let ?db' = "\<lparr>inventory = [(''aspirin'', 10, 2), (''aspirin'', 1, 2)], sales = []\<rparr>"
  let ?c = "\<lparr>tables = ?db, run = pg_execute, calls = []\<rparr>"
  let ?bad = "Some [VStr ''aspirin'', VStr ''ten'', VNum 2]"
  let ?good = "Some [VStr ''aspirin'', VInt 1, VNum 2]"
  have n: "conn (connect_to_db (Inl OperationalError)) = None"
    by (simp add: connect_to_db_def)
  have c: "conn (aspirin_ledger 10) = Some ?c"
    by (simp add: aspirin_ledger_conn)
  have bad: "run ?c q_insert_inventory (passed_params ?bad) (tables ?c) = Inl DataError"
    by (simp add: pg_insert_inventory_bad passed_params_simps)
  have good: "run ?c q_insert_inventory (passed_params ?good) (tables ?c) = Inr (?db', None)"
    by (simp add: pg_insert_inventory passed_params_simps int4_def)
  have sel: "run ?c q_select_all (passed_params None) (tables ?c) =
      Inr (?db, Some [[VStr ''aspirin'', VInt 10, VNum 2]])"
    by (simp add: pg_select_all passed_params_simps)
  have w1: "execute_query (connect_to_db (Inl OperationalError)) q_select_all None = Inl AttributeError"
    using execute_query_failure_report [of "connect_to_db (Inl OperationalError)" q_select_all None] n
    by blast
  have "\<exists>s' c'. execute_query (aspirin_ledger 10) q_insert_inventory ?bad = Inr (s', None) \<and>
         ui s' = ui (aspirin_ledger 10) @ [Error_executing DataError] \<and>
         conn s' = Some c' \<and> tables c' = tables ?c \<and>
         calls c' = calls ?c @ [Execute q_insert_inventory (passed_params ?bad)]"
    using execute_query_failure_report [of "aspirin_ledger 10" q_insert_inventory ?bad] c bad
    by blast
  then have w2: "\<exists>s' c'. execute_query (aspirin_ledger 10) q_insert_inventory ?bad = Inr (s', None) \<and>
         ui s' = [Error_executing DataError] \<and> conn s' = Some c' \<and> tables c' = ?db \<and>
         calls c' = [Execute q_insert_inventory ?bad]"
    by (simp add: aspirin_ledger_conn passed_params_simps)
  have "\<exists>s'. execute_query (aspirin_ledger 10) q_insert_inventory ?good =
           Inr (s', if startswith (py_upper (py_strip q_insert_inventory)) ''SELECT'' then None else None) \<and>
         store s' = Some ?db' \<and>
         ui s' = ui (aspirin_ledger 10) @
           (if startswith (py_upper (py_strip q_insert_inventory)) ''SELECT'' \<and> (None :: row list option) = None
            then [Error_executing ProgrammingError] else [])"
    using execute_query_failure_report [of "aspirin_ledger 10" q_insert_inventory ?good]
      c good ascii_statements(1)
    by blast
  then have w3: "\<exists>s'. execute_query (aspirin_ledger 10) q_insert_inventory ?good = Inr (s', None) \<and>
         ui s' = [] \<and> store s' = Some ?db'"
    by (auto simp: aspirin_ledger_conn write_flags)
  have "\<exists>s'. execute_query (aspirin_ledger 10) q_select_all None =
           Inr (s', if startswith (py_upper (py_strip q_select_all)) ''SELECT''
                    then Some [[VStr ''aspirin'', VInt 10, VNum 2]] else None) \<and>
         store s' = Some ?db \<and>
         ui s' = ui (aspirin_ledger 10) @
           (if startswith (py_upper (py_strip q_select_all)) ''SELECT'' \<and>
               Some [[VStr ''aspirin'', VInt 10, VNum 2]] = None
            then [Error_executing ProgrammingError] else [])"
    using execute_query_failure_report [of "aspirin_ledger 10" q_select_all None]
      c sel ascii_statements(2)
    by blast
  then have w4: "\<exists>s'. execute_query (aspirin_ledger 10) q_select_all None =
            Inr (s', Some [[VStr ''aspirin'', VInt 10, VNum 2]]) \<and> ui s' = []"
    by (auto simp: aspirin_ledger_conn select_flags)
  from w1 w2 w3 w4 show ?thesis
    by blast
qed

text \<open>
  The claim as stated fails on two inserts into the same ledger: the first is refused by
  the store (a text where the quantity belongs), the second succeeds and yields no rows,
  and the caller of \<open>execute_query\<close> gets \<^verbatim>\<open>None\<close> from both.
\<close>

theorem execute_query_failure_report_counterexample:
  "pg_execute q_insert_inventory (Some [VStr ''aspirin'', VStr ''ten'', VNum 2])
     \<lparr>inventory = [(''aspirin'', 10, 2)], sales = []\<rparr> = Inl DataError \<and>
   map_sum id snd (execute_query (aspirin_ledger 10) q_insert_inventory
     (Some [VStr ''aspirin'', VStr ''ten'', VNum 2])) = Inr None \<and>
   pg_execute q_insert_inventory (Some [VStr ''aspirin'', VInt 1, VNum 2])
     \<lparr>inventory = [(''aspirin'', 10, 2)], sales = []\<rparr> =
     Inr (\<lparr>inventory = [(''aspirin'', 10, 2), (''aspirin'', 1, 2)], sales = []\<rparr>, None) \<and>
   map_sum id snd (execute_query (aspirin_ledger 10) q_insert_inventory
     (Some [VStr ''aspirin'', VInt 1, VNum 2])) = Inr None"
proof -
  let ?db = "\<lparr>inventory = [(''aspirin'', 10, 2)], sales = []\<rparr>"
  let ?c = "\<lparr>tables = ?db, run = pg_execute, calls = []\<rparr>"
  have c: "conn (aspirin_ledger 10) = Some ?c" "run ?c = pg_execute"
    by (simp_all add: aspirin_ledger_conn)
  have i: "int4 1"
    by (simp add: int4_def)
  have bad: "run ?c q_insert_inventory (passed_params (Some [VStr ''aspirin'', VStr ''ten'', VNum 2]))
      (tables ?c) = Inl DataError"
    by (simp add: pg_insert_inventory_bad passed_params_simps)
  have f: "map_sum id snd (execute_query (aspirin_ledger 10) q_insert_inventory
     (Some [VStr ''aspirin'', VStr ''ten'', VNum 2])) = Inr None"
    by (simp add: execute_query_error [OF c(1) bad])
  have g: "map_sum id snd (execute_query (aspirin_ledger 10) q_insert_inventory
     (Some [VStr ''aspirin'', VInt 1, VNum 2])) = Inr None"
    by (simp add: execute_insert_inventory [OF c i])
  from f g show ?thesis
    by (simp add: pg_insert_inventory_bad pg_insert_inventory int4_def)
qed

text \<open>
  Claim C5, as amended. On a connected store, for every non-empty name, quantity from 1
  to 2147483647 (the largest value of the \<^verbatim>\<open>INTEGER\<close> column) and price of at
  least 0, \<open>add_item_to_inventory\<close> followed by the listing
  \<open>get_items_in_inventory\<close> yields a listing that contains the row; and after a
  second add with the same name the listing has every row of the first listing as often
  as before and the new row once more: the first row of that name is still there,
  neither merged nor replaced.
\<close>

theorem add_item_then_list:
  assumes "conn s = Some c" and "run c = pg_execute"
    and "item \<noteq> []" and "1 \<le> quantity" and "quantity \<le> 2147483647" and "0 \<le> price"
  shows "\<exists>s1 s2 listed.
           add_item_to_inventory s item quantity price = Inr s1 \<and>
           get_items_in_inventory s1 = Inr (s2, listed) \<and>
           add_then_list s item quantity price = Inr listed \<and>
           [VStr item, VInt quantity, VNum price] \<in> set listed \<and>
           (\<forall>quantity' price'. 1 \<le> quantity' \<and> quantity' \<le> 2147483647 \<and> 0 \<le> price' \<longrightarrow>
              (\<exists>s3 s4 listed'.
                 add_item_to_inventory s2 item quantity' price' = Inr s3 \<and>
                 get_items_in_inventory s3 = Inr (s4, listed') \<and>
                 add_then_list s2 item quantity' price' = Inr listed' \<and>
                 (\<forall>r. count_list listed' r =
                      count_list listed r +
                      (if r = [VStr item, VInt quantity', VNum price'] then 1 else 0))))"
proof -
  obtain s1 s2 listed where h:
    "add_item_to_inventory s item quantity price = Inr s1"
    "get_items_in_inventory s1 = Inr (s2, listed)"
    "add_then_list s item quantity price = Inr listed"
    "[VStr item, VInt quantity, VNum price] \<in> set listed"
    "\<And>quantity' price'. 1 \<le> quantity' \<Longrightarrow> quantity' \<le> 2147483647 \<Longrightarrow> 0 \<le> price' \<Longrightarrow>
        (\<exists>s3 s4. add_item_to_inventory s2 item quantity' price' = Inr s3 \<and>
           get_items_in_inventory s3 =
             Inr (s4, listed @ [[VStr item, VInt quantity', VNum price']]) \<and>
           add_then_list s2 item quantity' price' =
             Inr (listed @ [[VStr item, VInt quantity', VNum price']]))"
    using add_item_appends [OF assms] by blast
  have again: "\<exists>s3 s4 listed'.
      add_item_to_inventory s2 item quantity' price' = Inr s3 \<and>
      get_items_in_inventory s3 = Inr (s4, listed') \<and>
      add_then_list s2 item quantity' price' = Inr listed' \<and>
      (\<forall>r. count_list listed' r =
           count_list listed r + (if r = [VStr item, VInt quantity', VNum price'] then 1 else 0))"
    if v: "1 \<le> quantity'" "quantity' \<le> 2147483647" "0 \<le> price'" for quantity' price'
  proof -
    obtain s3 s4 where
      "add_item_to_inventory s2 item quantity' price' = Inr s3"
      "get_items_in_inventory s3 = Inr (s4, listed @ [[VStr item, VInt quantity', VNum price']])"
      "add_then_list s2 item quantity' price' = Inr (listed @ [[VStr item, VInt quantity', VNum price']])"
      using h(5) [OF v] by blast
    moreover have "count_list (listed @ [[VStr item, VInt quantity', VNum price']]) r =
        count_list listed r + (if r = [VStr item, VInt quantity', VNum price'] then 1 else 0)" for r
      by (induction listed) auto
    ultimately show ?thesis by blast
  qed
  from h(1-4) again show ?thesis by blast
qed

theorem add_item_then_list_witness:
  "add_then_list (aspirin_ledger 10) ''ibuprofen'' 3 (5 / 2) =
     Inr [[VStr ''aspirin'', VInt 10, VNum 2], [VStr ''ibuprofen'', VInt 3, VNum (5 / 2)]] \<and>
   (\<exists>s1 s2 s3 s4 listed'.
     add_item_to_inventory (aspirin_ledger 10) ''ibuprofen'' 3 (5 / 2) = Inr s1 \<and>
     get_items_in_inventory s1 =
       Inr (s2, [[VStr ''aspirin'', VInt 10, VNum 2], [VStr ''ibuprofen'', VInt 3, VNum (5 / 2)]]) \<and>
     add_item_to_inventory s2 ''ibuprofen'' 7 4 = Inr s3 \<and>
     get_items_in_inventory s3 = Inr (s4, listed') \<and>
     count_list listed' [VStr ''aspirin'', VInt 10, VNum 2] = 1 \<and>
     count_list listed' [VStr ''ibuprofen'', VInt 3, VNum (5 / 2)] = 1 \<and>
     count_list listed' [VStr ''ibuprofen'', VInt 7, VNum 4] = 1)"
proof -
  let ?c = "\<lparr>tables = \<lparr>inventory = [(''aspirin'', 10, 2)], sales = []\<rparr>, run = pg_execute, calls = []\<rparr>"
  have c: "conn (aspirin_ledger 10) = Some ?c" "run ?c = pg_execute"
    by (simp_all add: aspirin_ledger_conn)
  have v: "''ibuprofen'' \<noteq> []" "(1 :: int) \<le> 3" "(3 :: int) \<le> 2147483647" "(0 :: rat) \<le> 5 / 2"
    by simp_all
  obtain s1 s2 listed where h:
    "add_item_to_inventory (aspirin_ledger 10) ''ibuprofen'' 3 (5 / 2) = Inr s1"
    "get_items_in_inventory s1 = Inr (s2, listed)"
    "add_then_list (aspirin_ledger 10) ''ibuprofen'' 3 (5 / 2) = Inr listed"
    "\<forall>quantity' price'. 1 \<le> quantity' \<and> quantity' \<le> 2147483647 \<and> 0 \<le> price' \<longrightarrow>
        (\<exists>s3 s4 listed'.
           add_item_to_inventory s2 ''ibuprofen'' quantity' price' = Inr s3 \<and>
           get_items_in_inventory s3 = Inr (s4, listed') \<and>
           add_then_list s2 ''ibuprofen'' quantity' price' = Inr listed' \<and>
           (\<forall>r. count_list listed' r =
                count_list listed r +
                (if r = [VStr ''ibuprofen'', VInt quantity', VNum price'] then 1 else 0)))"
    using add_item_then_list [OF c v] by blast
  define c1 where
    "c1 = ?c\<lparr>tables := (tables ?c)\<lparr>inventory := inventory (tables ?c) @ [(''ibuprofen'', 3, 5 / 2)]\<rparr>,
            calls := calls ?c @
              [Execute q_insert_inventory (Some [VStr ''ibuprofen'', VInt 3, VNum (5 / 2)]), Commit]\<rparr>"
  have s1: "s1 = (aspirin_ledger 10)\<lparr>conn := Some c1\<rparr>"
    using h(1)
    by (simp add: add_item_to_inventory_def execute_insert_inventory [OF c] int4_def c1_def)
  have pg1: "conn s1 = Some c1" "run c1 = pg_execute"
    by (simp_all add: s1 c1_def)
  have listed: "listed = [[VStr ''aspirin'', VInt 10, VNum 2], [VStr ''ibuprofen'', VInt 3, VNum (5 / 2)]]"
    using h(2)
    by (simp add: get_items_in_inventory_def execute_select_all [OF pg1] truthy_rows_def c1_def)
  from h(4) obtain s3 s4 listed' where k:
    "add_item_to_inventory s2 ''ibuprofen'' 7 4 = Inr s3"
    "get_items_in_inventory s3 = Inr (s4, listed')"
    "\<forall>r. count_list listed' r =
         count_list listed r + (if r = [VStr ''ibuprofen'', VInt 7, VNum 4] then 1 else 0)"
    by (elim allE [of _ 7] allE [of _ 4]) auto
  from k(3) have counts:
    "count_list listed' [VStr ''aspirin'', VInt 10, VNum 2] = 1"
    "count_list listed' [VStr ''ibuprofen'', VInt 3, VNum (5 / 2)] = 1"
    "count_list listed' [VStr ''ibuprofen'', VInt 7, VNum 4] = 1"
    by (simp_all add: listed)
  with h(1,2,3) k(1,2) listed show ?thesis by blast
qed

text \<open>
  The claim as stated, for every quantity of at least 1, fails at the first quantity the
  \<^verbatim>\<open>INTEGER\<close> column cannot hold: the insert fails, the error is shown, and the
  listing that follows does not contain the row.
\<close>

theorem add_item_then_list_counterexample:
  "''aspirin'' \<noteq> [] \<and> (1 :: int) \<le> 2147483648 \<and> (0 :: rat) \<le> 2 \<and>
   add_then_list (pg_app \<lparr>inventory = [], sales = []\<rparr>) ''aspirin'' 2147483648 2 = Inr [] \<and>
   [VStr ''aspirin'', VInt 2147483648, VNum 2] \<notin> set ([] :: row list)"
proof -
  let ?db = "\<lparr>inventory = [], sales = []\<rparr>"
  let ?c = "\<lparr>tables = ?db, run = pg_execute, calls = []\<rparr>"
  let ?ps = "Some [VStr ''aspirin'', VInt 2147483648, VNum 2]"
  let ?c1 = "?c\<lparr>calls := calls ?c @ [Execute q_insert_inventory (passed_params ?ps)]\<rparr>"
  let ?s1 = "(pg_app ?db)\<lparr>conn := Some ?c1, ui := ui (pg_app ?db) @ [Error_executing DataError]\<rparr>"
  have c: "conn (pg_app ?db) = Some ?c"
    by (simp add: pg_app_simps)
  have bad: "run ?c q_insert_inventory (passed_params ?ps) (tables ?c) = Inl DataError"
    by (simp add: pg_insert_inventory passed_params_simps int4_def)
  have add: "add_item_to_inventory (pg_app ?db) ''aspirin'' 2147483648 2 = Inr ?s1"
    by (simp add: add_item_to_inventory_def execute_query_error [OF c bad])
  have pg1: "conn ?s1 = Some ?c1" "run ?c1 = pg_execute"
    by simp_all
  have "get_items_in_inventory ?s1 =
      Inr (?s1\<lparr>conn := Some (?c1\<lparr>calls := calls ?c1 @ [Execute q_select_all None, Fetchall]\<rparr>)\<rparr>, [])"
    using get_items_in_inventory_pg [OF pg1] by simp
  with add have "add_then_list (pg_app ?db) ''aspirin'' 2147483648 2 = Inr []"
    by (simp add: add_then_list_def)
  then show ?thesis by simp
qed

text \<open>
  Claim C7. For every \<open>N \<ge> 1\<close> that the quantity column can hold, \<open>N\<close> concurrent
  \<open>make_sale\<close> calls, each for one unit of the same item, on a ledger in which the
  item has one row, with the quantity \<open>N\<close>, all succeed and leave the quantity at
  exactly 0, however the store interleaves their statements: under every schedule that
  lets every session take its four steps, every session ends with the success message,
  one sale record is added for each, and the quantity is 0; and under every schedule
  whatsoever, complete or not, the quantity on hand is never negative.
\<close>

theorem concurrent_sales_of_last_units:
  assumes "buyers \<noteq> []" and "int (length buyers) \<le> 2147483647"
    and "rows_of db item = [(item, int (length buyers), p)]"
    and "\<forall>i < length buyers. 4 \<le> count_list sched i"
  shows "\<exists>db' ss'.
           run_sched sched (db, open_sessions db item buyers) = (db', ss') \<and>
           length ss' = length buyers \<and>
           (\<forall>i < length buyers.
              stage (ss' ! i) = Finished \<and> ui (app_of (ss' ! i)) = [Sale_recorded (VNum p)]) \<and>
           rows_of db' item = [(item, 0, p)] \<and>
           stock_of db' item = VInt 0 \<and>
           length (sales db') = length (sales db) + length buyers \<and>
           (\<forall>sched'. \<exists>left. 0 \<le> left \<and>
              rows_of (fst (run_sched sched' (db, open_sessions db item buyers))) item =
                [(item, left, p)])"
proof -
  obtain pre post where inv: "inventory db = pre @ (item, int (length buyers), p) # post"
    and others: "\<forall>r \<in> set (pre @ post). fst r \<noteq> item"
    using only_row [OF assms(3)] by blast
  obtain db' ss' where h:
    "run_sched sched (db, open_sessions db item buyers) = (db', ss')"
    "length ss' = length buyers"
    "\<forall>i < length buyers.
       stage (ss' ! i) = Finished \<and> ui (app_of (ss' ! i)) = [Sale_recorded (VNum p)]"
    "inventory db' = pre @ (item, 0, p) # post"
    "length (sales db') = length (sales db) + length buyers"
    "\<forall>sched'. \<exists>left. 0 \<le> left \<and>
       inventory (fst (run_sched sched' (db, open_sessions db item buyers))) =
         pre @ (item, left, p) # post"
    using concurrent_sales_in_place [OF assms(1,2) inv others assms(4)] by blast
  have rows: "rows_of db' item = [(item, 0, p)]"
    using h(4) others by (rule rows_of_unique)
  then have stock: "stock_of db' item = VInt 0"
    by (simp add: stock_of_def)
  have never_negative: "\<exists>left. 0 \<le> left \<and>
      rows_of (fst (run_sched s (db, open_sessions db item buyers))) item = [(item, left, p)]" for s
  proof -
    from h(6) obtain left where "0 \<le> left"
        "inventory (fst (run_sched s (db, open_sessions db item buyers))) =
           pre @ (item, left, p) # post"
      by blast
    then show ?thesis
      using rows_of_unique [OF _ others] by blast
  qed
  from h(1,2,3,5) rows stock never_negative show ?thesis
    by blast
qed

theorem concurrent_sales_of_last_units_witness:
  "\<exists>db' ss'.
     run_sched [0, 1, 0, 1, 1, 0, 1, 0]
       (\<lparr>inventory = [(''aspirin'', 2, 2)], sales = []\<rparr>,
        open_sessions \<lparr>inventory = [(''aspirin'', 2, 2)], sales = []\<rparr> ''aspirin''
          [(''Ann'', 1), (''Bob'', 2)]) = (db', ss') \<and>
     length ss' = 2 \<and>
     stage (ss' ! 0) = Finished \<and> ui (app_of (ss' ! 0)) = [Sale_recorded (VNum 2)] \<and>
     stage (ss' ! 1) = Finished \<and> ui (app_of (ss' ! 1)) = [Sale_recorded (VNum 2)] \<and>
     rows_of db' ''aspirin'' = [(''aspirin'', 0, 2)] \<and>
     length (sales db') = 2"
proof -
  let ?db = "\<lparr>inventory = [(''aspirin'', 2, 2)], sales = []\<rparr>"
  let ?buyers = "[(''Ann'', 1 :: nat), (''Bob'', 2)]"
  let ?sched = "[0, 1, 0, 1, 1, 0, 1, 0 :: nat]"
  have a: "?buyers \<noteq> []" and b: "int (length ?buyers) \<le> 2147483647"
    and c: "rows_of ?db ''aspirin'' = [(''aspirin'', int (length ?buyers), 2)]"
    by (simp_all add: rows_of_def)
  have e: "\<forall>i < length ?buyers. 4 \<le> count_list ?sched i"
    by (simp add: less_Suc_eq)
  obtain db' ss' where h:
    "run_sched ?sched (?db, open_sessions ?db ''aspirin'' ?buyers) = (db', ss')"
    "length ss' = length ?buyers"
    "\<forall>i < length ?buyers.
       stage (ss' ! i) = Finished \<and> ui (app_of (ss' ! i)) = [Sale_recorded (VNum 2)]"
    "rows_of db' ''aspirin'' = [(''aspirin'', 0, 2)]"
    "length (sales db') = length (sales ?db) + length ?buyers"
    using concurrent_sales_of_last_units [OF a b c e] by blast
  from h(3) have "stage (ss' ! 0) = Finished \<and> ui (app_of (ss' ! 0)) = [Sale_recorded (VNum 2)]"
    and "stage (ss' ! 1) = Finished \<and> ui (app_of (ss' ! 1)) = [Sale_recorded (VNum 2)]"
    by simp_all
  with h(1,2,4,5) show ?thesis
    by simp
qed

end
